theory Spec2Isabelle
  imports Complex_Main
begin

section \<open>JavaScript numbers, as far as \<open>avgOrderValue\<close> needs them\<close>

text \<open>
  \<open>avgOrderValue\<close> (Dashboard.tsx, lines 217-219) applies \<open>Number(...)\<close> to two string
  fields, compares with \<open>0\<close>, divides and calls \<open>Math.round\<close>. A JavaScript number is
  an IEEE 754 binary64 value: the finite ones are kept as the rational they denote, with
  \<open>Finite 0\<close> for \<open>+0\<close> and a constructor of its own for \<open>-0\<close>.
\<close>

datatype number = NaN | PosInfinity | NegInfinity | NegZero | Finite rat

fun bitlen :: "nat \<Rightarrow> nat" where
  "bitlen n = (if n = 0 then 0 else Suc (bitlen (n div 2)))"

declare bitlen.simps [simp del]

definition pow2 :: "int \<Rightarrow> rat" where
  "pow2 k = (if 0 \<le> k then 2 ^ nat k else 1 / 2 ^ nat (- k))"

definition floor_log2 :: "rat \<Rightarrow> int" where
  \<comment> \<open>for \<open>0 < q\<close>: the \<open>k\<close> with \<open>2 ^ k \<le> q < 2 ^ (k + 1)\<close>\<close>
  "floor_log2 q =
     (if 1 \<le> q then int (bitlen (nat \<lfloor>q\<rfloor>)) - 1
      else (let r = 1 / q; k = int (bitlen (nat \<lfloor>r\<rfloor>)) - 1
            in if pow2 k = r then - k else - (k + 1)))"

definition round_half_even :: "rat \<Rightarrow> int" where
  "round_half_even q =
     (let f = \<lfloor>q\<rfloor>; d = q - of_int f
      in if d < 1 / 2 then f else if 1 / 2 < d then f + 1 else if even f then f else f + 1)"

definition round_binary64 :: "rat \<Rightarrow> rat option" where
  \<comment> \<open>round a positive rational to the nearest binary64 value, ties to even: 53 bits of
      significand, least exponent \<open>-1074\<close>; \<open>None\<close> is overflow\<close>
  "round_binary64 q =
     (if q = 0 then Some 0
      else (let e = max (floor_log2 q - 52) (- 1074);
                v = of_int (round_half_even (q / pow2 e)) * pow2 e
            in if pow2 1024 \<le> v then None else Some v))"

definition to_number :: "bool \<Rightarrow> rat \<Rightarrow> number" where
  \<comment> \<open>the number value of sign (\<open>True\<close> is negative) and magnitude \<open>q \<ge> 0\<close>\<close>
  "to_number neg q =
     (case round_binary64 q of
        None \<Rightarrow> (if neg then NegInfinity else PosInfinity)
      | Some v \<Rightarrow> (if v = 0 then (if neg then NegZero else Finite 0)
                  else Finite (if neg then - v else v)))"

subsection \<open>\<open>Number(string)\<close>: the StringToNumber grammar\<close>

text \<open>
  Strings are lists of \<open>char\<close>, read as the code units \<open>0..255\<close>. White space and line
  terminators in that range are TAB, LF, VT, FF, CR, SP and NBSP.
\<close>

definition isWhiteSpace :: "char \<Rightarrow> bool" where
  "isWhiteSpace c = ((of_char c :: nat) \<in> {9, 10, 11, 12, 13, 32, 160})"

definition trim :: "string \<Rightarrow> string" where
  "trim s = rev (dropWhile isWhiteSpace (rev (dropWhile isWhiteSpace s)))"

definition digit_of :: "nat \<Rightarrow> char \<Rightarrow> nat option" where
  \<comment> \<open>the value of a digit of the given radix (at most 16), letters in either case\<close>
  "digit_of radix c =
     (let n = (of_char c :: nat);
          v = (if 48 \<le> n \<and> n \<le> 57 then Some (n - 48)
               else if 97 \<le> n \<and> n \<le> 102 then Some (n - 87)
               else if 65 \<le> n \<and> n \<le> 70 then Some (n - 55)
               else None)
      in case v of None \<Rightarrow> None | Some d \<Rightarrow> (if d < radix then Some d else None))"

fun digits_acc :: "nat \<Rightarrow> nat \<Rightarrow> string \<Rightarrow> nat option" where
  "digits_acc radix acc [] = Some acc"
| "digits_acc radix acc (c # cs) =
     (case digit_of radix c of
        None \<Rightarrow> None
      | Some d \<Rightarrow> digits_acc radix (acc * radix + d) cs)"

definition digits :: "nat \<Rightarrow> string \<Rightarrow> nat option" where
  \<comment> \<open>a possibly empty run of digits; \<open>None\<close> when some character is not a digit\<close>
  "digits radix s = digits_acc radix 0 s"

definition digits1 :: "nat \<Rightarrow> string \<Rightarrow> nat option" where
  \<comment> \<open>a non-empty run of digits\<close>
  "digits1 radix s = (if s = [] then None else digits radix s)"

definition split_at :: "(char \<Rightarrow> bool) \<Rightarrow> string \<Rightarrow> string \<times> string option" where
  \<comment> \<open>split at the first character satisfying \<open>P\<close>, which is dropped\<close>
  "split_at P s =
     (let a = takeWhile (\<lambda>c. \<not> P c) s; b = dropWhile (\<lambda>c. \<not> P c) s
      in (a, if b = [] then None else Some (tl b)))"

definition signed_integer :: "string \<Rightarrow> int option" where
  "signed_integer s =
     (case s of
        [] \<Rightarrow> None
      | c # cs \<Rightarrow>
          (if c = CHR ''+'' then map_option int (digits1 10 cs)
           else if c = CHR ''-'' then map_option (\<lambda>n. - int n) (digits1 10 cs)
           else map_option int (digits1 10 s)))"

definition pow10 :: "int \<Rightarrow> rat" where
  "pow10 k = (if 0 \<le> k then 10 ^ nat k else 1 / 10 ^ nat (- k))"

definition mantissa :: "string \<Rightarrow> rat option" where
  \<comment> \<open>\<open>DecimalDigits . DecimalDigits?\<close>, \<open>. DecimalDigits\<close> or \<open>DecimalDigits\<close>\<close>
  "mantissa s =
     (case split_at (\<lambda>c. c = CHR ''.'') s of
        (ip, None) \<Rightarrow> map_option of_nat (digits1 10 ip)
      | (ip, Some fp) \<Rightarrow>
          (if ip = [] \<and> fp = [] then None
           else (case (digits 10 ip, digits 10 fp) of
                   (Some i, Some f) \<Rightarrow> Some (of_nat i + of_nat f / 10 ^ length fp)
                 | _ \<Rightarrow> None)))"

definition unsigned_decimal :: "string \<Rightarrow> rat option option" where
  \<comment> \<open>StrUnsignedDecimalLiteral: \<open>None\<close> is no literal, \<open>Some None\<close> is \<open>Infinity\<close>\<close>
  "unsigned_decimal s =
     (if s = ''Infinity'' then Some None
      else (case split_at (\<lambda>c. c = CHR ''e'' \<or> c = CHR ''E'') s of
              (m, None) \<Rightarrow> map_option Some (mantissa m)
            | (m, Some ex) \<Rightarrow>
                (case (mantissa m, signed_integer ex) of
                   (Some q, Some k) \<Rightarrow> Some (Some (q * pow10 k))
                 | _ \<Rightarrow> None)))"

definition signed_decimal :: "string \<Rightarrow> number" where
  \<comment> \<open>StrDecimalLiteral: an optional sign, then StrUnsignedDecimalLiteral\<close>
  "signed_decimal s =
     (let neg = (s \<noteq> [] \<and> hd s = CHR ''-'');
          body = (if s \<noteq> [] \<and> (hd s = CHR ''-'' \<or> hd s = CHR ''+'') then tl s else s)
      in case unsigned_decimal body of
           None \<Rightarrow> NaN
         | Some None \<Rightarrow> (if neg then NegInfinity else PosInfinity)
         | Some (Some q) \<Rightarrow> to_number neg q)"

definition non_decimal :: "string \<Rightarrow> rat option" where
  \<comment> \<open>NonDecimalIntegerLiteral: \<open>0b\<close>, \<open>0o\<close>, \<open>0x\<close> in either case, then digits\<close>
  "non_decimal s =
     (case s of
        z # p # ds \<Rightarrow>
          (if z \<noteq> CHR ''0'' then None
           else if p = CHR ''x'' \<or> p = CHR ''X'' then map_option of_nat (digits1 16 ds)
           else if p = CHR ''o'' \<or> p = CHR ''O'' then map_option of_nat (digits1 8 ds)
           else if p = CHR ''b'' \<or> p = CHR ''B'' then map_option of_nat (digits1 2 ds)
           else None)
      | _ \<Rightarrow> None)"

definition Number :: "string \<Rightarrow> number" where
  "Number str =
     (let s = trim str
      in if s = [] then Finite 0
         else (case non_decimal s of
                 Some q \<Rightarrow> to_number False q
               | None \<Rightarrow> signed_decimal s))"

subsection \<open>Comparison, division and \<open>Math.round\<close>\<close>

definition gt_zero :: "number \<Rightarrow> bool" where
  \<comment> \<open>\<open>x > 0\<close>: false for NaN and for both zeros\<close>
  "gt_zero x = (case x of PosInfinity \<Rightarrow> True | Finite q \<Rightarrow> 0 < q | _ \<Rightarrow> False)"

datatype magnitude = Zero | Positive rat | Infinite

fun decompose :: "number \<Rightarrow> (bool \<times> magnitude) option" where
  "decompose NaN = None"
| "decompose PosInfinity = Some (False, Infinite)"
| "decompose NegInfinity = Some (True, Infinite)"
| "decompose NegZero = Some (True, Zero)"
| "decompose (Finite q) =
     (if q = 0 then Some (False, Zero) else Some (q < 0, Positive \<bar>q\<bar>))"

definition signed_zero :: "bool \<Rightarrow> number" where
  "signed_zero neg = (if neg then NegZero else Finite 0)"

definition signed_infinity :: "bool \<Rightarrow> number" where
  "signed_infinity neg = (if neg then NegInfinity else PosInfinity)"

definition divide_number :: "number \<Rightarrow> number \<Rightarrow> number" where
  \<comment> \<open>the \<open>/\<close> operator on numbers; it never throws\<close>
  "divide_number x y =
     (case (decompose x, decompose y) of
        (Some (sx, mx), Some (sy, my)) \<Rightarrow>
          (let neg = (sx \<noteq> sy)
           in case (mx, my) of
                (Infinite, Infinite) \<Rightarrow> NaN
              | (Infinite, _) \<Rightarrow> signed_infinity neg
              | (_, Infinite) \<Rightarrow> signed_zero neg
              | (Zero, Zero) \<Rightarrow> NaN
              | (Zero, Positive b) \<Rightarrow> signed_zero neg
              | (Positive a, Zero) \<Rightarrow> signed_infinity neg
              | (Positive a, Positive b) \<Rightarrow> to_number neg (a / b))
      | _ \<Rightarrow> NaN)"

definition Math_round :: "number \<Rightarrow> number" where
  \<comment> \<open>the nearest integer, ties towards \<open>+\<infinity>\<close>; \<open>-0\<close> for \<open>-0.5 \<le> x < 0\<close> and for \<open>-0\<close>\<close>
  "Math_round x =
     (case x of
        Finite q \<Rightarrow>
          (let r = \<lfloor>q + 1 / 2\<rfloor> in if r = 0 \<and> q < 0 then NegZero else Finite (of_int r))
      | _ \<Rightarrow> x)"

section \<open>The data the dashboard holds\<close>

record UserInfo =
  email :: string
  shop_domain :: string
  status :: string
  installed_at :: string

record Overview =
  total_customers :: string
  total_orders :: string
  total_revenue :: string
  currency :: string

record OrderByDate =
  order_date :: string
  order_count :: string
  daily_revenue :: string

record TopCustomer =
  customer_email :: string
  customer_name :: string
  customer_order_count :: string
  total_spent :: string

record RecentOrder =
  order_id :: int
  shopify_order_id :: string
  total_price :: string
  order_currency :: string
  created_at :: string

record WebhookEvent =
  event_id :: int
  event_type :: string
  shopify_id :: string
  processed_at :: string

record WebhookStatus =
  webhooks_active :: bool
  last_webhook_event :: "string option"
  webhook_count :: int
  events :: "WebhookEvent list"

definition avgOrderValue :: "Overview option \<Rightarrow> number" where
  "avgOrderValue overview =
     (case overview of
        None \<Rightarrow> Finite 0
      | Some ov \<Rightarrow>
          (if gt_zero (Number (total_orders ov))
           then Math_round (divide_number (Number (total_revenue ov)) (Number (total_orders ov)))
           else Finite 0))"

section \<open>The dashboard session\<close>

text \<open>
  The component \<open>Dashboard\<close> is event driven: every \<open>async\<close> function runs until its
  next \<open>await\<close>, is parked, and is resumed when the awaited request settles. The model
  keeps the parked calls in \<open>inflight\<close>, the timers of \<open>setInterval\<close> and
  \<open>setTimeout\<close> in \<open>timers\<close> under a clock \<open>now\<close> in milliseconds, and everything the
  component does to the outside (requests, console output, the \<open>onLogout\<close> callback)
  in the trace \<open>effects\<close>, oldest first. The bearer token that \<open>getAuthHeaders\<close> reads
  for every request is not part of the model.
\<close>

datatype endpoint = Me | OverviewEp | OrdersByDateEp | TopCustomersEp | RecentOrdersEp | WebhookStatusEp

datatype post_url = SetupWebhooks | Sync

datatype error =
    AxiosError "nat option"  \<comment> \<open>\<open>axios.isAxiosError(err)\<close>, with \<open>err.response?.status\<close>\<close>
  | OtherError               \<comment> \<open>anything else that was thrown\<close>

datatype 'a response = Fulfilled 'a | Rejected error

datatype effect =
    ConsoleLog string
  | ConsoleError string
  | HttpGet endpoint
  | HttpPost post_url
  | OnLogout

datatype callback =
    PollTick     \<comment> \<open>the function given to \<open>setInterval\<close>, lines 173-176\<close>
  | ResetGuard   \<comment> \<open>the function given to \<open>setTimeout\<close>, line 113\<close>

record timer =
  tid :: nat
  due :: nat
  period :: "nat option"   \<comment> \<open>\<open>Some p\<close> for an interval, \<open>None\<close> for a timeout\<close>
  action :: callback

datatype awaiter =
    NoAwaiter       \<comment> \<open>the call was not awaited (the effect, the interval, line 142)\<close>
  | SetupAwaits     \<comment> \<open>\<open>await fetchAllData(true)\<close>, line 102\<close>
  | RefreshAwaits   \<comment> \<open>\<open>await fetchAllData()\<close>, line 191\<close>

datatype task =
    FetchAll bool awaiter  \<comment> \<open>\<open>fetchAllData(silent)\<close> parked at \<open>await Promise.all\<close>, line 122\<close>
  | SetupPost              \<comment> \<open>\<open>setupWebhooksAutomatically\<close> parked at line 100\<close>
  | SyncPost               \<comment> \<open>\<open>handleManualRefresh\<close> parked at line 190\<close>

record state =
  userInfo :: "UserInfo option"
  overview :: "Overview option"
  ordersByDate :: "OrderByDate list"
  topCustomers :: "TopCustomer list"
  recentOrders :: "RecentOrder list"
  webhookStatus :: "WebhookStatus option"
  loading :: bool
  refreshing :: bool
  lastDashboardUpdate :: nat
  webhookSetupAttempted :: bool
  pollingIntervalRef :: "nat option"
  now :: nat
  timers :: "timer list"
  nextTimerId :: nat
  inflight :: "task list"
  effects :: "effect list"

definition initial :: "nat \<Rightarrow> state" where
  \<comment> \<open>the first render at time \<open>t0\<close>, lines 68-79; timer identifiers are positive\<close>
  "initial t0 =
     \<lparr>userInfo = None, overview = None, ordersByDate = [], topCustomers = [],
      recentOrders = [], webhookStatus = None, loading = True, refreshing = False,
      lastDashboardUpdate = t0, webhookSetupAttempted = False, pollingIntervalRef = None,
      now = t0, timers = [], nextTimerId = 1, inflight = [], effects = []\<rparr>"

definition emit :: "effect \<Rightarrow> state \<Rightarrow> state" where
  "emit e s = s\<lparr>effects := effects s @ [e]\<rparr>"

definition park :: "task \<Rightarrow> state \<Rightarrow> state" where
  "park t s = s\<lparr>inflight := inflight s @ [t]\<rparr>"

definition unpark :: "nat \<Rightarrow> state \<Rightarrow> state" where
  "unpark i s = s\<lparr>inflight := take i (inflight s) @ drop (Suc i) (inflight s)\<rparr>"

definition setTimer :: "nat option \<Rightarrow> callback \<Rightarrow> nat \<Rightarrow> state \<Rightarrow> state" where
  \<comment> \<open>\<open>setInterval\<close> and \<open>setTimeout\<close>: a fresh identifier, first due after the delay\<close>
  "setTimer p cb delay s =
     s\<lparr>timers := timers s @ [\<lparr>tid = nextTimerId s, due = now s + delay, period = p, action = cb\<rparr>],
       nextTimerId := Suc (nextTimerId s)\<rparr>"

definition clearInterval :: "nat \<Rightarrow> state \<Rightarrow> state" where
  "clearInterval i s = s\<lparr>timers := filter (\<lambda>t. tid t \<noteq> i) (timers s)\<rparr>"

subsection \<open>\<open>fetchAllData\<close> and \<open>setupWebhooksAutomatically\<close>\<close>

definition all_endpoints :: "endpoint list" where
  "all_endpoints = [Me, OverviewEp, OrdersByDateEp, TopCustomersEp, RecentOrdersEp, WebhookStatusEp]"

definition fetchAllData :: "bool \<Rightarrow> awaiter \<Rightarrow> state \<Rightarrow> state" where
  \<comment> \<open>lines 119-129: up to \<open>await Promise.all\<close>\<close>
  "fetchAllData silent k s =
     (let s1 = (if \<not> silent then s\<lparr>loading := True\<rparr> else s);
          s2 = s1\<lparr>effects := effects s1 @ map HttpGet all_endpoints\<rparr>
      in park (FetchAll silent k) s2)"

definition setupWebhooksAutomatically :: "state \<Rightarrow> state" where
  \<comment> \<open>lines 92-100: up to \<open>await axios.post\<close>\<close>
  "setupWebhooksAutomatically s =
     (if webhookSetupAttempted s
      then emit (ConsoleLog ''Skipping auto-webhook setup attempt as one is already in progress or recently failed.'') s
      else park SetupPost
             (emit (HttpPost SetupWebhooks)
                (emit (ConsoleLog ''Attempting automatic webhook setup...'')
                   (s\<lparr>webhookSetupAttempted := True\<rparr>))))"

definition setupWebhooksAutomatically_posted :: "unit response \<Rightarrow> state \<Rightarrow> state" where
  \<comment> \<open>lines 100-102 and 106-113: the request of line 100 has settled\<close>
  "setupWebhooksAutomatically_posted res s =
     (case res of
        Fulfilled _ \<Rightarrow> fetchAllData True SetupAwaits s
      | Rejected err \<Rightarrow>
          setTimer None ResetGuard 30000 (emit (ConsoleError ''Webhook setup failed (auto-attempt):'') s))"

definition setupWebhooksAutomatically_refetched :: "state \<Rightarrow> state" where
  \<comment> \<open>lines 103-105: \<open>fetchAllData(true)\<close> has returned\<close>
  "setupWebhooksAutomatically_refetched s =
     (emit (ConsoleLog ''Automatic webhook setup completed!'') s)\<lparr>webhookSetupAttempted := False\<rparr>"

record responses =
  userRes :: "UserInfo response"
  overviewRes :: "Overview response"
  ordersDateRes :: "OrderByDate list response"
  topCustomersRes :: "TopCustomer list response"
  recentOrdersRes :: "RecentOrder list response"
  webhookRes :: "WebhookStatus response"

record fetched =
  userData :: UserInfo
  overviewData :: Overview
  ordersDateData :: "OrderByDate list"
  topCustomersData :: "TopCustomer list"
  recentOrdersData :: "RecentOrder list"
  webhookData :: "WebhookStatus option"

datatype 'a settled = Pending | Resolved 'a | Failed error

fun rejection :: "'a response \<Rightarrow> error option" where
  "rejection (Fulfilled _) = None"
| "rejection (Rejected err) = Some err"

fun fulfilment :: "'a response \<Rightarrow> 'a option" where
  "fulfilment (Fulfilled d) = Some d"
| "fulfilment (Rejected _) = None"

fun rejection_of :: "responses \<Rightarrow> endpoint \<Rightarrow> error option" where
  \<comment> \<open>what the promise in the array of line 122 rejects with; the last one has
      \<open>.catch(() => ({ data: null }))\<close> and never rejects\<close>
  "rejection_of r Me = rejection (userRes r)"
| "rejection_of r OverviewEp = rejection (overviewRes r)"
| "rejection_of r OrdersByDateEp = rejection (ordersDateRes r)"
| "rejection_of r TopCustomersEp = rejection (topCustomersRes r)"
| "rejection_of r RecentOrdersEp = rejection (recentOrdersRes r)"
| "rejection_of r WebhookStatusEp = None"

fun first_rejection :: "responses \<Rightarrow> endpoint list \<Rightarrow> error option" where
  \<comment> \<open>the requests settle in the order of the list\<close>
  "first_rejection r [] = None"
| "first_rejection r (ep # eps) =
     (case rejection_of r ep of
        Some err \<Rightarrow> Some err
      | None \<Rightarrow> first_rejection r eps)"

definition all_settled :: "endpoint list \<Rightarrow> bool" where
  "all_settled order = list_all (\<lambda>ep. ep \<in> set order) all_endpoints"

definition promise_all :: "responses \<Rightarrow> endpoint list \<Rightarrow> fetched settled" where
  \<comment> \<open>\<open>Promise.all\<close>: rejects with the first rejection, resolves once all six have
      settled, is pending until then\<close>
  "promise_all r order =
     (case first_rejection r order of
        Some err \<Rightarrow> Failed err
      | None \<Rightarrow>
          (if \<not> all_settled order then Pending
           else (case (fulfilment (userRes r), fulfilment (overviewRes r),
                       fulfilment (ordersDateRes r), fulfilment (topCustomersRes r),
                       fulfilment (recentOrdersRes r)) of
                   (Some u, Some ov, Some od, Some tc, Some ro) \<Rightarrow>
                     Resolved \<lparr>userData = u, overviewData = ov, ordersDateData = od,
                               topCustomersData = tc, recentOrdersData = ro,
                               webhookData = fulfilment (webhookRes r)\<rparr>
                 | _ \<Rightarrow> Pending)))"

definition fetchAllData_try :: "fetched \<Rightarrow> state \<Rightarrow> state" where
  \<comment> \<open>lines 131-143\<close>
  "fetchAllData_try d s =
     (let s1 = s\<lparr>userInfo := Some (userData d),
                 overview := Some (overviewData d),
                 ordersByDate := ordersDateData d,
                 topCustomers := topCustomersData d,
                 recentOrders := recentOrdersData d,
                 webhookStatus := webhookData d,
                 lastDashboardUpdate := now s\<rparr>
      in case webhookData d of
           None \<Rightarrow> s1
         | Some w \<Rightarrow>
             (if \<not> webhooks_active w \<and> \<not> webhookSetupAttempted s1
              then setupWebhooksAutomatically s1 else s1))"

definition is_auth_status :: "nat option \<Rightarrow> bool" where
  "is_auth_status st = (st = Some 401 \<or> st = Some 403)"

definition fetchAllData_catch :: "error \<Rightarrow> state \<Rightarrow> state" where
  \<comment> \<open>lines 145-155\<close>
  "fetchAllData_catch err s =
     (case err of
        AxiosError st \<Rightarrow>
          (let s1 = emit (ConsoleError ''Failed to fetch data (axios error):'') s
           in if is_auth_status st then emit OnLogout s1 else s1)
      | OtherError \<Rightarrow> emit (ConsoleError ''Failed to fetch data:'') s)"

definition fetchAllData_finally :: "bool \<Rightarrow> state \<Rightarrow> state" where
  \<comment> \<open>lines 156-158\<close>
  "fetchAllData_finally silent s = (if \<not> silent then s\<lparr>loading := False\<rparr> else s)"

subsection \<open>\<open>handleManualRefresh\<close>\<close>

definition handleManualRefresh :: "state \<Rightarrow> state" where
  \<comment> \<open>lines 188-190: up to \<open>await axios.post\<close>\<close>
  "handleManualRefresh s = park SyncPost (emit (HttpPost Sync) (s\<lparr>refreshing := True\<rparr>))"

definition handleManualRefresh_catch :: "error \<Rightarrow> state \<Rightarrow> state" where
  \<comment> \<open>lines 193-203\<close>
  "handleManualRefresh_catch err s =
     (case err of
        AxiosError st \<Rightarrow>
          (let s1 = emit (ConsoleError ''Manual Refresh/Sync failed:'') s
           in if is_auth_status st then emit OnLogout s1 else s1)
      | OtherError \<Rightarrow> emit (ConsoleError ''Manual Refresh/Sync failed:'') s)"

definition handleManualRefresh_finally :: "state \<Rightarrow> state" where
  \<comment> \<open>lines 204-206\<close>
  "handleManualRefresh_finally s = s\<lparr>refreshing := False\<rparr>"

definition handleManualRefresh_synced :: "unit response \<Rightarrow> state \<Rightarrow> state" where
  \<comment> \<open>the request of line 190 has settled\<close>
  "handleManualRefresh_synced res s =
     (case res of
        Fulfilled _ \<Rightarrow> fetchAllData False RefreshAwaits s
      | Rejected err \<Rightarrow> handleManualRefresh_finally (handleManualRefresh_catch err s))"

definition handleManualRefresh_fetched :: "state \<Rightarrow> state" where
  \<comment> \<open>lines 192 and 204-206: \<open>fetchAllData()\<close> has returned\<close>
  "handleManualRefresh_fetched s =
     handleManualRefresh_finally (emit (ConsoleLog ''Dashboard manually refreshed and synced!'') s)"

subsection \<open>Resuming a parked call\<close>

fun resume :: "awaiter \<Rightarrow> state \<Rightarrow> state" where
  "resume NoAwaiter s = s"
| "resume SetupAwaits s = setupWebhooksAutomatically_refetched s"
| "resume RefreshAwaits s = handleManualRefresh_fetched s"

definition fetchAllData_settled :: "bool \<Rightarrow> awaiter \<Rightarrow> fetched settled \<Rightarrow> state \<Rightarrow> state" where
  \<comment> \<open>lines 131-158, then the caller that awaited the call\<close>
  "fetchAllData_settled silent k outcome s =
     (case outcome of
        Pending \<Rightarrow> s
      | Resolved d \<Rightarrow> resume k (fetchAllData_finally silent (fetchAllData_try d s))
      | Failed err \<Rightarrow> resume k (fetchAllData_finally silent (fetchAllData_catch err s)))"

subsection \<open>The effect of lines 163-184 and the timers\<close>

text \<open>
  \<open>pollingIntervalRef\<close> is declared \<open>NodeJS.Timeout | null\<close>: the tests of lines 165
  and 180 are tests for \<open>null\<close>. Neither the effect nor its cleanup resets the
  reference, so after a cleanup it still names the cleared timer.
\<close>

definition useEffect_cleanup :: "state \<Rightarrow> state" where
  \<comment> \<open>lines 179-183\<close>
  "useEffect_cleanup s =
     (case pollingIntervalRef s of
        None \<Rightarrow> s
      | Some i \<Rightarrow> clearInterval i s)"

definition useEffect_body :: "state \<Rightarrow> state" where
  \<comment> \<open>lines 165-176\<close>
  "useEffect_body s =
     (let s1 = (case pollingIntervalRef s of None \<Rightarrow> s | Some i \<Rightarrow> clearInterval i s);
          s2 = fetchAllData False NoAwaiter s1;
          s3 = setTimer (Some 15000) PollTick 15000 s2
      in s3\<lparr>pollingIntervalRef := Some (nextTimerId s2)\<rparr>)"

fun run_callback :: "callback \<Rightarrow> state \<Rightarrow> state" where
  "run_callback PollTick s =
     fetchAllData True NoAwaiter (emit (ConsoleLog ''Polling for dashboard updates...'') s)"
| "run_callback ResetGuard s = s\<lparr>webhookSetupAttempted := False\<rparr>"

definition reschedule :: "nat \<Rightarrow> nat \<Rightarrow> state \<Rightarrow> state" where
  "reschedule i p s =
     s\<lparr>timers := map (\<lambda>t. if tid t = i then t\<lparr>due := now s + p\<rparr> else t) (timers s)\<rparr>"

definition timer_fires :: "nat \<Rightarrow> state \<Rightarrow> state" where
  \<comment> \<open>the host runs the callback of timer \<open>i\<close>: only if it is still set and due; a
      timeout is then gone, an interval is due again one period later\<close>
  "timer_fires i s =
     (case find (\<lambda>t. tid t = i) (timers s) of
        None \<Rightarrow> s
      | Some t \<Rightarrow>
          (if now s < due t then s
           else run_callback (action t)
                  (case period t of
                     None \<Rightarrow> clearInterval i s
                   | Some p \<Rightarrow> reschedule i p s)))"

subsection \<open>Events and runs\<close>

datatype event =
    Mount                                        \<comment> \<open>the effect runs\<close>
  | Unmount                                      \<comment> \<open>the effect's cleanup runs\<close>
  | ClickRefresh                                 \<comment> \<open>the button of lines 252-259\<close>
  | Elapse nat                                   \<comment> \<open>time passes\<close>
  | TimerFires nat
  | FetchSettles nat responses "endpoint list"   \<comment> \<open>responses and the order they arrive in\<close>
  | PostSettles nat "unit response"

fun step :: "event \<Rightarrow> state \<Rightarrow> state" where
  "step Mount s = useEffect_body s"
| "step Unmount s = useEffect_cleanup s"
| "step ClickRefresh s =
     (if loading s \<or> refreshing s then s else handleManualRefresh s)"
| "step (Elapse dt) s = s\<lparr>now := now s + dt\<rparr>"
| "step (TimerFires i) s = timer_fires i s"
| "step (FetchSettles i r order) s =
     (if i < length (inflight s)
      then (case inflight s ! i of
              FetchAll silent k \<Rightarrow>
                (case promise_all r order of
                   Pending \<Rightarrow> s
                 | outcome \<Rightarrow> fetchAllData_settled silent k outcome (unpark i s))
            | _ \<Rightarrow> s)
      else s)"
| "step (PostSettles i res) s =
     (if i < length (inflight s)
      then (case inflight s ! i of
              SetupPost \<Rightarrow> setupWebhooksAutomatically_posted res (unpark i s)
            | SyncPost \<Rightarrow> handleManualRefresh_synced res (unpark i s)
            | _ \<Rightarrow> s)
      else s)"

fun run :: "event list \<Rightarrow> state \<Rightarrow> state" where
  "run [] s = s"
| "run (ev # evs) s = run evs (step ev s)"

fun elapsed :: "event list \<Rightarrow> nat" where
  "elapsed [] = 0"
| "elapsed (Elapse dt # evs) = dt + elapsed evs"
| "elapsed (_ # evs) = elapsed evs"

definition new_effects :: "state \<Rightarrow> state \<Rightarrow> effect list" where
  \<comment> \<open>what was added to the trace between an earlier and a later state\<close>
  "new_effects s s' = drop (length (effects s)) (effects s')"

section \<open>Vocabulary of the proofs\<close>

subsection \<open>Observations on a state\<close>

text \<open>
  A remediation is in flight while \<open>setupWebhooksAutomatically\<close> is parked, at its
  request or at the refetch that follows it. A timer-driven fetch is recognised in the
  trace by the line the interval's callback prints before it calls \<open>fetchAllData\<close>.
\<close>

fun is_remediation :: "task \<Rightarrow> bool" where
  "is_remediation SetupPost = True"
| "is_remediation (FetchAll silent SetupAwaits) = True"
| "is_remediation _ = False"

definition remediations_in_flight :: "state \<Rightarrow> nat" where
  "remediations_in_flight s = length (filter is_remediation (inflight s))"

definition guard_resets :: "state \<Rightarrow> timer list" where
  "guard_resets s = filter (\<lambda>t. action t = ResetGuard) (timers s)"

definition poll_timers :: "state \<Rightarrow> timer list" where
  "poll_timers s = filter (\<lambda>t. action t = PollTick) (timers s)"

definition poll_fetches :: "state \<Rightarrow> nat" where
  "poll_fetches s = length (filter (\<lambda>e. e = ConsoleLog ''Polling for dashboard updates...'') (effects s))"

fun is_auth :: "error \<Rightarrow> bool" where
  "is_auth (AxiosError st) = is_auth_status st"
| "is_auth OtherError = False"

definition logouts :: "effect list \<Rightarrow> nat" where
  "logouts es = length (filter (\<lambda>e. e = OnLogout) es)"

fun is_request :: "effect \<Rightarrow> bool" where
  "is_request (HttpGet _) = True"
| "is_request (HttpPost _) = True"
| "is_request _ = False"

definition requests :: "effect list \<Rightarrow> effect list" where
  "requests es = filter is_request es"

subsection \<open>Invariants of a run\<close>

text \<open>
  Timer identifiers are handed out once each; the interval kept in
  \<open>pollingIntervalRef\<close> is the only polling timer. The guard is set exactly while one
  remediation is in flight or one reset of the guard is pending.
\<close>

fun below :: "nat option \<Rightarrow> nat \<Rightarrow> bool" where
  "below None n = True"
| "below (Some j) n = (j < n)"

definition timers_ok :: "state \<Rightarrow> bool" where
  "timers_ok s =
     (distinct (map tid (timers s))
      \<and> list_all (\<lambda>t. tid t < nextTimerId s
                       \<and> (action t = PollTick) = (pollingIntervalRef s = Some (tid t))
                       \<and> (action t = ResetGuard \<longrightarrow> period t = None)) (timers s)
      \<and> below (pollingIntervalRef s) (nextTimerId s))"

definition guard_ok :: "state \<Rightarrow> bool" where
  "guard_ok s =
     (remediations_in_flight s + length (guard_resets s) = (if webhookSetupAttempted s then 1 else 0))"

definition session_ok :: "state \<Rightarrow> bool" where
  "session_ok s = (timers_ok s \<and> guard_ok s)"

subsection \<open>What a completed fetch cycle adds to the trace\<close>

fun resume_log :: "awaiter \<Rightarrow> effect list" where
  "resume_log NoAwaiter = []"
| "resume_log SetupAwaits = [ConsoleLog ''Automatic webhook setup completed!'']"
| "resume_log RefreshAwaits = [ConsoleLog ''Dashboard manually refreshed and synced!'']"

fun catch_log :: "error \<Rightarrow> effect list" where
  "catch_log (AxiosError st) =
     ConsoleError ''Failed to fetch data (axios error):'' # (if is_auth_status st then [OnLogout] else [])"
| "catch_log OtherError = [ConsoleError ''Failed to fetch data:'']"

definition try_log :: "fetched \<Rightarrow> bool \<Rightarrow> effect list" where
  "try_log d guard =
     (case webhookData d of
        None \<Rightarrow> []
      | Some w \<Rightarrow>
          (if \<not> webhooks_active w \<and> \<not> guard
           then [ConsoleLog ''Attempting automatic webhook setup...'', HttpPost SetupWebhooks]
           else []))"

subsection \<open>Concrete sessions and responses\<close>

definition sample_user :: UserInfo where
  "sample_user = \<lparr>email = ''owner@shop.example'', shop_domain = ''shop.example'',
     status = ''active'', installed_at = ''2024-01-01''\<rparr>"

definition sample_overview :: Overview where
  "sample_overview = \<lparr>total_customers = ''3'', total_orders = ''4'', total_revenue = ''1000'',
     currency = ''USD''\<rparr>"

definition webhooks_inactive :: WebhookStatus where
  "webhooks_inactive = \<lparr>webhooks_active = False, last_webhook_event = None, webhook_count = 0,
     events = []\<rparr>"

definition responses_inactive :: responses where
  "responses_inactive = \<lparr>userRes = Fulfilled sample_user, overviewRes = Fulfilled sample_overview,
     ordersDateRes = Fulfilled [], topCustomersRes = Fulfilled [], recentOrdersRes = Fulfilled [],
     webhookRes = Fulfilled webhooks_inactive\<rparr>"

definition remediating :: state where
  "remediating = run [Mount, FetchSettles 0 responses_inactive all_endpoints] (initial 0)"

definition loading_session :: state where
  "loading_session = step Mount (initial 0)"

definition responses_webhook_401 :: responses where
  "responses_webhook_401 = responses_inactive\<lparr>webhookRes := Rejected (AxiosError (Some 401))\<rparr>"

definition responses_mixed :: responses where
  "responses_mixed = responses_inactive\<lparr>userRes := Rejected (AxiosError (Some 500)),
     overviewRes := Rejected (AxiosError (Some 401))\<rparr>"

definition responses_server_error :: responses where
  "responses_server_error = responses_inactive\<lparr>userRes := Rejected (AxiosError (Some 500))\<rparr>"

definition responses_unauthorized :: responses where
  "responses_unauthorized = responses_inactive\<lparr>overviewRes := Rejected (AxiosError (Some 403))\<rparr>"

definition second_cycle :: state where
  "second_cycle =
     run [Mount, Unmount, Mount, Elapse 120, FetchSettles 0 responses_inactive all_endpoints]
       (initial 0)"

definition sample_overview_empty :: Overview where
  "sample_overview_empty = \<lparr>total_customers = ''0'', total_orders = ''0'', total_revenue = ''0'',
     currency = ''USD''\<rparr>"

definition refresh_started :: state where
  "refresh_started = handleManualRefresh (initial 0)"

section \<open>Facts about the model\<close>

subsection \<open>What the operations leave alone\<close>

lemmas op_defs = emit_def park_def unpark_def setTimer_def clearInterval_def fetchAllData_def
  setupWebhooksAutomatically_def setupWebhooksAutomatically_posted_def
  setupWebhooksAutomatically_refetched_def fetchAllData_try_def fetchAllData_catch_def
  fetchAllData_finally_def handleManualRefresh_def handleManualRefresh_catch_def
  handleManualRefresh_finally_def handleManualRefresh_synced_def handleManualRefresh_fetched_def
  fetchAllData_settled_def useEffect_cleanup_def useEffect_body_def reschedule_def timer_fires_def

lemma timers_fetchAllData [simp]: "timers (fetchAllData b k s) = timers s"
  "nextTimerId (fetchAllData b k s) = nextTimerId s"
  "pollingIntervalRef (fetchAllData b k s) = pollingIntervalRef s"
  "webhookSetupAttempted (fetchAllData b k s) = webhookSetupAttempted s"
  "inflight (fetchAllData b k s) = inflight s @ [FetchAll b k]"
  "now (fetchAllData b k s) = now s"
  by (simp_all add: fetchAllData_def park_def Let_def)

lemma timers_setup [simp]: "timers (setupWebhooksAutomatically s) = timers s"
  "nextTimerId (setupWebhooksAutomatically s) = nextTimerId s"
  "pollingIntervalRef (setupWebhooksAutomatically s) = pollingIntervalRef s"
  "now (setupWebhooksAutomatically s) = now s"
  by (simp_all add: setupWebhooksAutomatically_def park_def emit_def)

lemma timers_settled [simp]: "timers (fetchAllData_settled b k out s) = timers s"
  "nextTimerId (fetchAllData_settled b k out s) = nextTimerId s"
  "pollingIntervalRef (fetchAllData_settled b k out s) = pollingIntervalRef s"
  "now (fetchAllData_settled b k out s) = now s"
  by (cases out; cases k; simp add: op_defs Let_def split: option.splits error.splits)+

subsection \<open>The timer table stays well formed\<close>

lemma timers_ok_cong:
  "timers s' = timers s \<Longrightarrow> nextTimerId s' = nextTimerId s \<Longrightarrow>
   pollingIntervalRef s' = pollingIntervalRef s \<Longrightarrow> timers_ok s' = timers_ok s"
  by (simp add: timers_ok_def)

lemma timers_ok_clearInterval: "timers_ok s \<Longrightarrow> timers_ok (clearInterval i s)"
  by (auto simp: timers_ok_def clearInterval_def list_all_iff distinct_map_filter)

lemma below_fresh: "below r n \<Longrightarrow> below r (Suc n) \<and> r \<noteq> Some n"
  by (cases r) simp_all

lemma timers_ok_setTimeout:
  "timers_ok s \<Longrightarrow> timers_ok (setTimer None ResetGuard d s)"
  by (auto simp: timers_ok_def setTimer_def list_all_iff less_Suc_eq dest: below_fresh)

lemma timers_ok_useEffect_body: "timers_ok s \<Longrightarrow> timers_ok (useEffect_body s)"
  by (fastforce simp: timers_ok_def useEffect_body_def setTimer_def clearInterval_def Let_def list_all_iff distinct_map_filter
      split: option.splits)

lemma timers_ok_timer_fires: "timers_ok s \<Longrightarrow> timers_ok (timer_fires i s)"
proof (cases "find (\<lambda>t. tid t = i) (timers s)")
  case None
  then show "timers_ok s \<Longrightarrow> ?thesis" by (simp add: timer_fires_def)
next
  case (Some t)
  assume ok: "timers_ok s"
  have r: "timers_ok (reschedule i p s)" for p
    using ok by (auto simp: timers_ok_def reschedule_def list_all_iff comp_def distinct_map
        inj_on_def split: option.splits)
  have c: "timers_ok (clearInterval i s)" using ok by (rule timers_ok_clearInterval)
  have cb: "timers_ok (run_callback cb u)" if "timers_ok u" for cb u
    using that by (cases cb) (simp_all add: timers_ok_def emit_def)
  show ?thesis using Some r c ok
    by (auto simp: timer_fires_def intro!: cb split: option.splits)
qed

lemma timers_ok_step: "timers_ok s \<Longrightarrow> timers_ok (step ev s)"
proof (cases ev)
  case Mount then show "timers_ok s \<Longrightarrow> ?thesis" by (simp add: timers_ok_useEffect_body)
next
  case Unmount then show "timers_ok s \<Longrightarrow> ?thesis"
    by (simp add: useEffect_cleanup_def timers_ok_clearInterval split: option.splits)
next
  case ClickRefresh then show "timers_ok s \<Longrightarrow> ?thesis"
    by (simp add: timers_ok_def handleManualRefresh_def park_def emit_def)
next
  case (Elapse dt) then show "timers_ok s \<Longrightarrow> ?thesis" by (simp add: timers_ok_def)
next
  case (TimerFires i) then show "timers_ok s \<Longrightarrow> ?thesis" by (simp add: timers_ok_timer_fires)
next
  case (FetchSettles i r order)
  assume ok: "timers_ok s"
  have "timers_ok (unpark i s)" using ok by (simp add: timers_ok_def unpark_def)
  then have "timers_ok (fetchAllData_settled b k out (unpark i s))" for b k out
    by (simp add: timers_ok_cong [of "fetchAllData_settled b k out (unpark i s)" "unpark i s"])
  then show ?thesis using FetchSettles ok
    by (simp split: task.splits settled.splits)
next
  case (PostSettles i res)
  assume ok: "timers_ok s"
  have u: "timers_ok (unpark i s)" using ok by (simp add: timers_ok_def unpark_def)
  have a: "timers_ok (setupWebhooksAutomatically_posted res (unpark i s))"
  proof (cases res)
    case (Fulfilled x)
    then show ?thesis using u
      by (simp add: setupWebhooksAutomatically_posted_def
          timers_ok_cong [of "fetchAllData True SetupAwaits (unpark i s)" "unpark i s"])
  next
    case (Rejected err)
    have "timers_ok (emit e (unpark i s))" for e using u by (simp add: timers_ok_def emit_def)
    then show ?thesis using Rejected 
      by (simp add: setupWebhooksAutomatically_posted_def timers_ok_setTimeout)
  qed
  have b: "timers_ok (handleManualRefresh_synced res (unpark i s))"
    using u by (cases res)
      (simp_all add: handleManualRefresh_synced_def handleManualRefresh_finally_def
          handleManualRefresh_catch_def emit_def timers_ok_def Let_def
          fetchAllData_def park_def split: error.splits)
  show ?thesis using PostSettles ok a b by (simp split: task.splits)
qed

subsection \<open>The guard counts the remediation in flight or cooling down\<close>

lemma rem_unpark:
  assumes "i < length (inflight s)"
  shows "remediations_in_flight s =
         remediations_in_flight (unpark i s) + (if is_remediation (inflight s ! i) then 1 else 0)"
proof -
  have "inflight s = take i (inflight s) @ inflight s ! i # drop (Suc i) (inflight s)"
    using assms by (rule id_take_nth_drop)
  then have "filter is_remediation (inflight s) =
      filter is_remediation (take i (inflight s) @ inflight s ! i # drop (Suc i) (inflight s))"
    by simp
  then show ?thesis
    by (simp add: remediations_in_flight_def unpark_def)
qed

lemma guard_frame:
  "inflight s' = inflight s \<Longrightarrow> timers s' = timers s \<Longrightarrow>
   webhookSetupAttempted s' = webhookSetupAttempted s \<Longrightarrow> guard_ok s' = guard_ok s"
  by (simp add: guard_ok_def remediations_in_flight_def guard_resets_def)

lemma resets_unpark [simp]: "guard_resets (unpark i s) = guard_resets s"
  "webhookSetupAttempted (unpark i s) = webhookSetupAttempted s"
  by (simp_all add: guard_resets_def unpark_def)

lemma guard_ok_settled:
  assumes "remediations_in_flight u + (if k = SetupAwaits then 1 else 0) + length (guard_resets u)
           = (if webhookSetupAttempted u then 1 else 0)" "out \<noteq> Pending"
  shows "guard_ok (fetchAllData_settled silent k out u)"
  using assms
  by (cases out; cases k)
     (auto simp: guard_ok_def remediations_in_flight_def guard_resets_def op_defs Let_def
        split: option.splits error.splits if_splits)

lemma guard_ok_FetchSettles:
  assumes "guard_ok s"
  shows "guard_ok (step (FetchSettles i r order) s)"
proof (cases "i < length (inflight s)")
  case False
  then show ?thesis using assms by simp
next
  case True
  show ?thesis
  proof (cases "inflight s ! i")
    case (FetchAll silent k)
    have rem: "remediations_in_flight (unpark i s) + (if k = SetupAwaits then 1 else 0)
               + length (guard_resets (unpark i s))
               = (if webhookSetupAttempted (unpark i s) then 1 else 0)"
      using assms rem_unpark [OF True] FetchAll
      by (cases k) (simp_all add: guard_ok_def)
    show ?thesis
      using True FetchAll assms guard_ok_settled [OF rem]
      by (cases "promise_all r order") simp_all
  qed (use True assms in simp_all)
qed

lemma guard_ok_PostSettles:
  assumes "guard_ok s"
  shows "guard_ok (step (PostSettles i res) s)"
proof (cases "i < length (inflight s)")
  case False
  then show ?thesis using assms by simp
next
  case True
  show ?thesis
  proof (cases "inflight s ! i")
    case (FetchAll silent k)
    then show ?thesis using True assms by simp
  next
    case SetupPost
    then have "remediations_in_flight (unpark i s) + 1 + length (guard_resets (unpark i s))
               = (if webhookSetupAttempted (unpark i s) then 1 else 0)"
      using assms rem_unpark [OF True] by (simp add: guard_ok_def)
    then have "guard_ok (setupWebhooksAutomatically_posted res (unpark i s))"
      by (cases res)
         (auto simp: guard_ok_def remediations_in_flight_def guard_resets_def
            setupWebhooksAutomatically_posted_def emit_def
            setTimer_def split: if_splits)
    then show ?thesis using True SetupPost by simp
  next
    case SyncPost
    then have "guard_ok (unpark i s)"
      using assms rem_unpark [OF True] by (simp add: guard_ok_def)
    then have "guard_ok (handleManualRefresh_synced res (unpark i s))"
      by (cases res)
         (auto simp: guard_ok_def remediations_in_flight_def guard_resets_def op_defs Let_def
            split: error.splits if_splits)
    then show ?thesis using True SyncPost by simp
  qed
qed

lemma resets_clear_poll:
  assumes "timers_ok s" "pollingIntervalRef s = Some i"
  shows "guard_resets (clearInterval i s) = guard_resets s"
proof -
  have "action t = ResetGuard \<Longrightarrow> tid t \<noteq> i" if "t \<in> set (timers s)" for t
    using assms that by (auto simp: timers_ok_def list_all_iff)
  then have "filter (\<lambda>t. action t = ResetGuard \<and> tid t \<noteq> i) (timers s)
           = filter (\<lambda>t. action t = ResetGuard) (timers s)"
    by (intro filter_cong) auto
  then show ?thesis
    by (simp add: guard_resets_def clearInterval_def conj_commute)
qed

lemma filter_distinct_remove:
  assumes "distinct (map f xs)" "x \<in> set xs" "P x"
  shows "length (filter P xs) = Suc (length (filter P (filter (\<lambda>y. f y \<noteq> f x) xs)))"
  using assms
proof (induction xs)
  case Nil
  then show ?case by simp
next
  case (Cons a xs)
  show ?case
  proof (cases "a = x")
    case True
    then have "f x \<notin> f ` set xs" using Cons.prems by simp
    then have "\<forall>y\<in>set xs. f y \<noteq> f x" by (metis imageI)
    then have "filter (\<lambda>y. f y \<noteq> f x) xs = xs" by (simp add: filter_id_conv)
    then show ?thesis using True Cons.prems by simp
  next
    case False
    then have "x \<in> set xs" "f a \<noteq> f x" using Cons.prems by auto
    then show ?thesis using Cons by simp
  qed
qed

lemma find_tid:
  assumes "find (\<lambda>t. tid t = i) ts = Some t"
  shows "t \<in> set ts \<and> tid t = i"
  using assms by (auto simp: find_Some_iff)

lemma guard_ok_timer_fires:
  assumes "timers_ok s" "guard_ok s"
  shows "guard_ok (timer_fires i s)"
proof (cases "find (\<lambda>t. tid t = i) (timers s)")
  case None
  then show ?thesis using assms by (simp add: timer_fires_def)
next
  case (Some t)
  then have t: "t \<in> set (timers s)" "tid t = i" using find_tid by fastforce+
  have dist: "distinct (map tid (timers s))" using assms(1) by (simp add: timers_ok_def)
  show ?thesis
  proof (cases "now s < due t")
    case True
    then show ?thesis using Some assms by (simp add: timer_fires_def)
  next
    case False
    show ?thesis
    proof (cases "action t")
      case PollTick
      have same: "u \<in> set (timers s) \<Longrightarrow> action u = ResetGuard \<Longrightarrow> tid u \<noteq> i" for u
        using dist t PollTick by (metis callback.distinct(1) distinct_map inj_onD)
      then have "filter (\<lambda>u. action u = ResetGuard \<and> tid u \<noteq> i) (timers s)
               = filter (\<lambda>u. action u = ResetGuard) (timers s)"
        by (intro filter_cong) auto
      then have c: "guard_resets (clearInterval i s) = guard_resets s"
        by (simp add: guard_resets_def clearInterval_def conj_commute)
      have r: "length (guard_resets (reschedule i p s)) = length (guard_resets s)" for p
        by (simp add: guard_resets_def reschedule_def filter_map comp_def if_distrib cong: if_cong)
      have "guard_ok (run_callback PollTick u)"
        if "length (guard_resets u) = length (guard_resets s)" "inflight u = inflight s"
           "webhookSetupAttempted u = webhookSetupAttempted s" for u
        using that assms(2)
        by (simp add: guard_ok_def remediations_in_flight_def guard_resets_def emit_def)
      then show ?thesis
        using Some False PollTick c r
        by (simp add: timer_fires_def clearInterval_def reschedule_def split: option.splits)
    next
      case ResetGuard
      then have per: "period t = None"
        using assms(1) t by (auto simp: timers_ok_def list_all_iff)
      have "length (guard_resets s) = Suc (length (guard_resets (clearInterval i s)))"
        using filter_distinct_remove [OF dist t(1), of "\<lambda>u. action u = ResetGuard"] ResetGuard t(2)
        by (simp add: guard_resets_def clearInterval_def)
      then have "guard_ok ((clearInterval i s)\<lparr>webhookSetupAttempted := False\<rparr>)"
        using assms(2)
        by (simp add: guard_ok_def remediations_in_flight_def guard_resets_def clearInterval_def
            split: if_splits)
      then show ?thesis
        using Some False ResetGuard per by (simp add: timer_fires_def)
    qed
  qed
qed

lemma guard_ok_cleanup:
  assumes "timers_ok s" "guard_ok s"
  shows "guard_ok (useEffect_cleanup s)"
proof (cases "pollingIntervalRef s")
  case None
  then show ?thesis using assms by (simp add: useEffect_cleanup_def)
next
  case (Some i)
  then show ?thesis
    using assms resets_clear_poll [OF assms(1) Some]
    by (simp add: useEffect_cleanup_def guard_ok_def remediations_in_flight_def clearInterval_def)
qed

lemma guard_ok_body:
  assumes "timers_ok s" "guard_ok s"
  shows "guard_ok (useEffect_body s)"
proof -
  have g: "guard_ok (useEffect_cleanup s)" using assms by (rule guard_ok_cleanup)
  have "guard_ok
     ((setTimer (Some 15000) PollTick 15000 (fetchAllData False NoAwaiter u))\<lparr>pollingIntervalRef := x\<rparr>)"
    if "guard_ok u" for u x
    using that by (simp add: guard_ok_def remediations_in_flight_def guard_resets_def setTimer_def)
  from this [OF g] show ?thesis
    by (simp add: useEffect_body_def useEffect_cleanup_def Let_def)
qed

lemma session_ok_step: "session_ok s \<Longrightarrow> session_ok (step ev s)"
proof -
  assume i: "session_ok s"
  then have t: "timers_ok s" and g: "guard_ok s" by (simp_all add: session_ok_def)
  have "guard_ok (step ev s)"
  proof (cases ev)
    case Mount then show ?thesis using t g by (simp add: guard_ok_body)
  next
    case Unmount then show ?thesis using t g by (simp add: guard_ok_cleanup)
  next
    case ClickRefresh then show ?thesis using g
      by (auto simp: guard_ok_def remediations_in_flight_def guard_resets_def
          handleManualRefresh_def park_def emit_def split: if_splits)
  next
    case (Elapse dt) then show ?thesis using g
      by (simp add: guard_ok_def remediations_in_flight_def guard_resets_def)
  next
    case (TimerFires i) then show ?thesis using t g by (simp add: guard_ok_timer_fires)
  next
    case (FetchSettles i r order) then show ?thesis using g guard_ok_FetchSettles by simp
  next
    case (PostSettles i res) then show ?thesis using g guard_ok_PostSettles by simp
  qed
  then show ?thesis using t by (simp add: session_ok_def timers_ok_step)
qed

lemma session_ok_run: "session_ok s \<Longrightarrow> session_ok (run evs s)"
  by (induction evs arbitrary: s) (simp_all add: session_ok_step)

lemma session_ok_initial: "session_ok (initial t0)"
  by (simp add: session_ok_def timers_ok_def guard_ok_def remediations_in_flight_def guard_resets_def initial_def)

subsection \<open>Runs, the clock and the cool-down timer\<close>

lemma run_append: "run (xs @ ys) s = run ys (run xs s)"
  by (induction xs arbitrary: s) simp_all

lemma now_step: "now (step ev s) = now s + elapsed [ev]"
proof (cases ev)
  case (TimerFires i)
  have "now (run_callback cb u) = now u" for cb u by (cases cb) (simp_all add: emit_def)
  then show ?thesis using TimerFires
    by (simp add: timer_fires_def clearInterval_def reschedule_def split: option.splits)
next
  case (FetchSettles i r order)
  then show ?thesis by (simp add: unpark_def split: task.splits settled.splits)
next
  case (PostSettles i res)
  then show ?thesis
    by (cases res)
      (simp_all add: unpark_def setupWebhooksAutomatically_posted_def handleManualRefresh_synced_def
        handleManualRefresh_finally_def handleManualRefresh_catch_def setTimer_def emit_def
        Let_def split: task.splits error.splits)
qed (simp_all add: useEffect_body_def useEffect_cleanup_def clearInterval_def setTimer_def
      handleManualRefresh_def park_def emit_def Let_def split: option.splits)

lemma timers_grow_FetchSettles: "timers (step (FetchSettles i r order) s) = timers s"
  by (simp add: unpark_def split: task.splits settled.splits)

lemma timers_grow_PostSettles: "set (timers s) \<subseteq> set (timers (step (PostSettles i res) s))"
  by (cases res)
    (auto simp: unpark_def setupWebhooksAutomatically_posted_def handleManualRefresh_synced_def
        handleManualRefresh_finally_def handleManualRefresh_catch_def setTimer_def emit_def
        Let_def fetchAllData_def park_def split: task.splits error.splits)

lemma reset_timer_survives:
  assumes "timers_ok s" "t \<in> set (timers s)" "action t = ResetGuard" "now s < due t"
  shows "t \<in> set (timers (step ev s))"
proof (cases ev)
  case Mount
  have "pollingIntervalRef s \<noteq> Some (tid t)"
    using assms by (auto simp: timers_ok_def list_all_iff)
  then show ?thesis using Mount assms(2)
    by (auto simp: useEffect_body_def clearInterval_def setTimer_def Let_def split: option.splits)
next
  case Unmount
  have "pollingIntervalRef s \<noteq> Some (tid t)"
    using assms by (auto simp: timers_ok_def list_all_iff)
  then show ?thesis using Unmount assms(2)
    by (auto simp: useEffect_cleanup_def clearInterval_def split: option.splits)
next
  case ClickRefresh
  then show ?thesis using assms(2) by (simp add: handleManualRefresh_def park_def emit_def)
next
  case (Elapse dt)
  then show ?thesis using assms(2) by simp
next
  case (TimerFires i)
  have cb: "timers (run_callback cb u) = timers u" for cb u by (cases cb) (simp_all add: emit_def)
  show ?thesis
  proof (cases "find (\<lambda>t. tid t = i) (timers s)")
    case None
    then show ?thesis using TimerFires assms(2) by (simp add: timer_fires_def)
  next
    case (Some u)
    then have u: "u \<in> set (timers s)" "tid u = i" using find_tid by fastforce+
    have dist: "distinct (map tid (timers s))" using assms(1) by (simp add: timers_ok_def)
    show ?thesis
    proof (cases "tid t = i")
      case True
      then have "u = t" using dist u assms(2) by (metis distinct_map inj_onD)
      then show ?thesis using TimerFires Some assms by (simp add: timer_fires_def)
    next
      case False
      then have "t \<in> set (timers (clearInterval i s))" "t \<in> set (timers (reschedule i p s))" for p
        using assms(2) by (auto simp: clearInterval_def reschedule_def)
      then show ?thesis using TimerFires Some assms(2)
        by (simp add: timer_fires_def cb split: option.splits)
    qed
  qed
next
  case (FetchSettles i r order)
  then show ?thesis using assms(2) timers_grow_FetchSettles by simp
next
  case (PostSettles i res)
  then show ?thesis using assms(2) timers_grow_PostSettles by blast
qed

lemma guard_held:
  assumes "session_ok s" "t \<in> set (timers s)" "action t = ResetGuard"
  shows "webhookSetupAttempted s"
proof -
  have "t \<in> set (guard_resets s)" using assms by (simp add: guard_resets_def)
  then have "0 < length (guard_resets s)" by (cases "guard_resets s") auto
  then show ?thesis using assms(1) by (auto simp: session_ok_def guard_ok_def split: if_splits)
qed

lemma cooldown_run:
  assumes "session_ok s" "t \<in> set (timers s)" "action t = ResetGuard" "now s + elapsed evs < due t"
  shows "session_ok (run evs s) \<and> t \<in> set (timers (run evs s)) \<and> now (run evs s) = now s + elapsed evs"
  using assms
proof (induction evs arbitrary: s)
  case Nil
  then show ?case by simp
next
  case (Cons ev evs)
  have e: "elapsed (ev # evs) = elapsed [ev] + elapsed evs" by (cases ev) simp_all
  have 1: "session_ok (step ev s)" using Cons.prems(1) by (rule session_ok_step)
  have 2: "t \<in> set (timers (step ev s))"
    using Cons.prems e by (intro reset_timer_survives) (simp_all add: session_ok_def)
  have 3: "now (step ev s) + elapsed evs < due t"
    using Cons.prems(4) e by (simp add: now_step)
  show ?case using Cons.IH [OF 1 2 Cons.prems(3) 3] e by (simp add: now_step)
qed

lemma find_distinct:
  assumes "distinct (map f xs)" "x \<in> set xs"
  shows "find (\<lambda>y. f y = f x) xs = Some x"
  using assms by (induction xs) force+

lemma setup_unguarded:
  "\<not> webhookSetupAttempted u \<Longrightarrow>
   new_effects u (setupWebhooksAutomatically u) =
     [ConsoleLog ''Attempting automatic webhook setup...'', HttpPost SetupWebhooks]"
  by (simp add: new_effects_def setupWebhooksAutomatically_def emit_def park_def)

lemma setup_guarded:
  "webhookSetupAttempted u \<Longrightarrow>
   setupWebhooksAutomatically u =
     u\<lparr>effects := effects u @ [ConsoleLog ''Skipping auto-webhook setup attempt as one is already in progress or recently failed.'']\<rparr>"
  by (simp add: setupWebhooksAutomatically_def emit_def)

lemma failure_sets_timer:
  assumes "i < length (inflight s)" "inflight s ! i = SetupPost"
  shows "timers (step (PostSettles i (Rejected err)) s) =
           timers s @ [\<lparr>tid = nextTimerId s, due = now s + 30000, period = None, action = ResetGuard\<rparr>]"
    and "now (step (PostSettles i (Rejected err)) s) = now s"
    and "webhookSetupAttempted (step (PostSettles i (Rejected err)) s) = webhookSetupAttempted s"
  using assms
  by (simp_all add: setupWebhooksAutomatically_posted_def setTimer_def emit_def unpark_def)

lemma reset_fires:
  assumes "session_ok u" "t \<in> set (timers u)" "action t = ResetGuard" "due t \<le> now u"
  shows "\<not> webhookSetupAttempted (timer_fires (tid t) u)"
proof -
  have "distinct (map tid (timers u))" "period t = None"
    using assms by (auto simp: session_ok_def timers_ok_def list_all_iff)
  then have "find (\<lambda>y. tid y = tid t) (timers u) = Some t" "period t = None"
    using assms(2) find_distinct by fastforce+
  then show ?thesis using assms(3,4) by (simp add: timer_fires_def)
qed

lemma remediating_eval:
  "inflight remediating = [SetupPost]" "webhookSetupAttempted remediating"
  "nextTimerId remediating = 2" "now remediating = 0"
  by (simp_all add: remediating_def initial_def responses_inactive_def webhooks_inactive_def
      promise_all_def all_settled_def all_endpoints_def op_defs Let_def)

subsection \<open>Polling timers\<close>

lemma cleanup_no_poll:
  assumes "timers_ok s"
  shows "poll_timers (useEffect_cleanup s) = []"
proof (cases "pollingIntervalRef s")
  case None
  then show ?thesis using assms
    by (auto simp: useEffect_cleanup_def poll_timers_def timers_ok_def list_all_iff filter_empty_conv)
next
  case (Some i)
  then show ?thesis using assms
    by (auto simp: useEffect_cleanup_def poll_timers_def timers_ok_def list_all_iff
        filter_empty_conv clearInterval_def)
qed

lemma poll_frame:
  "timers s' = timers s \<Longrightarrow> poll_timers s' = poll_timers s"
  by (simp add: poll_timers_def)

lemma poll_fetches_settled:
  "poll_fetches (fetchAllData_settled silent k out u) = poll_fetches u"
  by (cases out; cases k)
     (auto simp: poll_fetches_def op_defs Let_def all_endpoints_def
        split: option.splits error.splits)

lemma no_poll_step:
  assumes "poll_timers s = []" "ev \<noteq> Mount"
  shows "poll_timers (step ev s) = [] \<and> poll_fetches (step ev s) = poll_fetches s"
proof (cases ev)
  case Mount
  then show ?thesis using assms by simp
next
  case Unmount
  then show ?thesis using assms
    by (auto simp: useEffect_cleanup_def clearInterval_def poll_timers_def poll_fetches_def
        filter_empty_conv split: option.splits)
next
  case ClickRefresh
  then show ?thesis using assms
    by (simp add: handleManualRefresh_def park_def emit_def poll_timers_def poll_fetches_def)
next
  case (Elapse dt)
  then show ?thesis using assms by (simp add: poll_timers_def poll_fetches_def)
next
  case (TimerFires i)
  show ?thesis
  proof (cases "find (\<lambda>t. tid t = i) (timers s)")
    case None
    then show ?thesis using TimerFires assms by (simp add: timer_fires_def)
  next
    case (Some t)
    then have "t \<in> set (timers s)" using find_tid by fastforce
    then have "action t = ResetGuard"
      using assms(1) by (cases "action t") (auto simp: poll_timers_def filter_empty_conv)
    then show ?thesis using TimerFires Some assms(1)
      by (auto simp: timer_fires_def clearInterval_def reschedule_def poll_timers_def
          poll_fetches_def filter_empty_conv split: option.splits)
  qed
next
  case (FetchSettles i r order)
  have "poll_timers (fetchAllData_settled silent k out (unpark i s)) = []" for silent k out
    using assms(1) poll_frame [of "fetchAllData_settled silent k out (unpark i s)" s]
    by (simp add: unpark_def)
  moreover have "poll_fetches (fetchAllData_settled silent k out (unpark i s)) = poll_fetches s"
    for silent k out
    by (simp add: poll_fetches_settled) (simp add: poll_fetches_def unpark_def)
  ultimately show ?thesis using FetchSettles assms(1)
    by (simp split: task.splits settled.splits)
next
  case (PostSettles i res)
  then show ?thesis using assms(1)
    by (cases res)
       (auto simp: poll_timers_def poll_fetches_def unpark_def setTimer_def emit_def park_def
          setupWebhooksAutomatically_posted_def handleManualRefresh_synced_def
          handleManualRefresh_catch_def handleManualRefresh_finally_def fetchAllData_def
          all_endpoints_def Let_def split: task.splits error.splits)
qed

lemma no_poll_run:
  assumes "poll_timers s = []" "Mount \<notin> set evs"
  shows "poll_fetches (run evs s) = poll_fetches s"
  using assms
proof (induction evs arbitrary: s)
  case Nil
  then show ?case by simp
next
  case (Cons ev evs)
  then have "ev \<noteq> Mount" "Mount \<notin> set evs" by auto
  then show ?case using Cons.IH [of "step ev s"] no_poll_step [OF Cons.prems(1)] by simp
qed

lemma filter_same_key:
  assumes "distinct (map f xs)" "\<forall>x\<in>set xs. P x \<longrightarrow> f x = c"
  shows "length (filter P xs) \<le> 1"
  using assms
proof (induction xs)
  case Nil
  then show ?case by simp
next
  case (Cons a xs)
  show ?case
  proof (cases "P a")
    case True
    then have "f a = c" using Cons.prems by simp
    moreover have "f a \<notin> f ` set xs" using Cons.prems by simp
    ultimately have "\<forall>x\<in>set xs. \<not> P x" using Cons.prems(2) by (metis imageI list.set_intros(2))
    then have "filter P xs = []" by (simp add: filter_empty_conv)
    then show ?thesis by simp
  next
    case False
    then show ?thesis using Cons by simp
  qed
qed

lemma at_most_one_poll:
  assumes "timers_ok s"
  shows "length (poll_timers s) \<le> 1"
proof (cases "pollingIntervalRef s")
  case None
  then have "poll_timers s = []" using assms
    by (auto simp: poll_timers_def timers_ok_def list_all_iff filter_empty_conv)
  then show ?thesis by simp
next
  case (Some c)
  then have "\<forall>t\<in>set (timers s). action t = PollTick \<longrightarrow> tid t = c"
    using assms by (auto simp: timers_ok_def list_all_iff)
  moreover have "distinct (map tid (timers s))" using assms by (simp add: timers_ok_def)
  ultimately show ?thesis unfolding poll_timers_def by (intro filter_same_key)
qed

lemma body_one_poll:
  assumes "timers_ok s"
  shows "poll_timers (useEffect_body s) =
     [\<lparr>tid = nextTimerId s, due = now s + 15000, period = Some 15000, action = PollTick\<rparr>]
     \<and> pollingIntervalRef (useEffect_body s) = Some (nextTimerId s)"
proof -
  have "poll_timers (useEffect_cleanup s) = []" using assms by (rule cleanup_no_poll)
  then show ?thesis
    by (simp add: useEffect_body_def useEffect_cleanup_def poll_timers_def setTimer_def Let_def
        clearInterval_def split: option.splits)
qed

subsection \<open>The step that completes a fetch cycle\<close>

lemma step_FetchSettles:
  assumes "i < length (inflight s)" "inflight s ! i = FetchAll silent k"
  shows "step (FetchSettles i r order) s =
     (if promise_all r order = Pending then s
      else fetchAllData_settled silent k (promise_all r order) (unpark i s))"
  using assms by (simp split: settled.splits)

lemma promise_all_Resolved:
  assumes "userRes r = Fulfilled u" "overviewRes r = Fulfilled ov" "ordersDateRes r = Fulfilled od"
    "topCustomersRes r = Fulfilled tc" "recentOrdersRes r = Fulfilled ro" "all_settled order"
  shows "promise_all r order =
    Resolved \<lparr>userData = u, overviewData = ov, ordersDateData = od,
              topCustomersData = tc, recentOrdersData = ro,
              webhookData = fulfilment (webhookRes r)\<rparr>"
proof -
  have "rejection_of r ep = None" for ep
    using assms by (cases ep) simp_all
  then have "first_rejection r eps = None" for eps
    by (induction eps) simp_all
  then show ?thesis
    using assms by (simp add: promise_all_def)
qed

lemma promise_all_Failed:
  "first_rejection r order = Some err \<Longrightarrow> promise_all r order = Failed err"
  by (simp add: promise_all_def)

lemma promise_all_webhookData:
  "promise_all r order = Resolved d \<Longrightarrow> webhookData d = fulfilment (webhookRes r)"
  by (auto simp: promise_all_def split: option.splits if_splits)

lemma promise_all_rejected:
  assumes "rejection_of r ep = Some err"
  shows "promise_all r order \<noteq> Resolved d"
proof -
  have "fulfilment (userRes r) = None \<or> fulfilment (overviewRes r) = None
      \<or> fulfilment (ordersDateRes r) = None \<or> fulfilment (topCustomersRes r) = None
      \<or> fulfilment (recentOrdersRes r) = None"
    using assms
    by (cases ep; cases "userRes r"; cases "overviewRes r"; cases "ordersDateRes r";
        cases "topCustomersRes r"; cases "recentOrdersRes r") simp_all
  then show ?thesis
    by (auto simp: promise_all_def split: option.splits)
qed

lemma settled_Resolved_display:
  "userInfo (fetchAllData_settled silent k (Resolved d) u) = Some (userData d)"
  "overview (fetchAllData_settled silent k (Resolved d) u) = Some (overviewData d)"
  "ordersByDate (fetchAllData_settled silent k (Resolved d) u) = ordersDateData d"
  "topCustomers (fetchAllData_settled silent k (Resolved d) u) = topCustomersData d"
  "recentOrders (fetchAllData_settled silent k (Resolved d) u) = recentOrdersData d"
  "webhookStatus (fetchAllData_settled silent k (Resolved d) u) = webhookData d"
  "lastDashboardUpdate (fetchAllData_settled silent k (Resolved d) u) = now u"
  by (cases k; simp add: op_defs Let_def split: option.splits)+

lemma settled_Failed_display:
  "userInfo (fetchAllData_settled silent k (Failed err) u) = userInfo u"
  "overview (fetchAllData_settled silent k (Failed err) u) = overview u"
  "ordersByDate (fetchAllData_settled silent k (Failed err) u) = ordersByDate u"
  "topCustomers (fetchAllData_settled silent k (Failed err) u) = topCustomers u"
  "recentOrders (fetchAllData_settled silent k (Failed err) u) = recentOrders u"
  "webhookStatus (fetchAllData_settled silent k (Failed err) u) = webhookStatus u"
  "lastDashboardUpdate (fetchAllData_settled silent k (Failed err) u) = lastDashboardUpdate u"
  by (cases k; cases err; simp add: op_defs Let_def)+

lemma unpark_display:
  "userInfo (unpark i s) = userInfo s" "overview (unpark i s) = overview s"
  "ordersByDate (unpark i s) = ordersByDate s" "topCustomers (unpark i s) = topCustomers s"
  "recentOrders (unpark i s) = recentOrders s" "webhookStatus (unpark i s) = webhookStatus s"
  "lastDashboardUpdate (unpark i s) = lastDashboardUpdate s" "now (unpark i s) = now s"
  "effects (unpark i s) = effects s" "loading (unpark i s) = loading s"
  "refreshing (unpark i s) = refreshing s"
  by (simp_all add: unpark_def)

lemma settled_effects:
  "effects (fetchAllData_settled silent k (Failed err) u) = effects u @ catch_log err @ resume_log k"
  "effects (fetchAllData_settled silent k (Resolved d) u) =
     effects u @ try_log d (webhookSetupAttempted u) @ resume_log k"
  by (cases k; cases err; simp add: op_defs try_log_def Let_def split: option.splits)+

lemma new_effects_append: "effects s' = effects s @ xs \<Longrightarrow> new_effects s s' = xs"
  by (simp add: new_effects_def)

lemma step_FetchSettles_effects:
  assumes "i < length (inflight s)" "inflight s ! i = FetchAll silent k"
  shows "new_effects s (step (FetchSettles i r order) s) =
     (case promise_all r order of
        Pending \<Rightarrow> []
      | Resolved d \<Rightarrow> try_log d (webhookSetupAttempted s) @ resume_log k
      | Failed err \<Rightarrow> catch_log err @ resume_log k)"
  using assms
  by (cases "promise_all r order")
     (simp_all add: new_effects_def settled_effects unpark_display)

lemma loading_session_eval:
  "inflight loading_session = [FetchAll False NoAwaiter]"
  "\<not> webhookSetupAttempted loading_session" "now loading_session = 0"
  "lastDashboardUpdate loading_session = 0"
  by (simp_all add: loading_session_def initial_def op_defs Let_def)

subsection \<open>Evaluating the number model\<close>

lemmas number_eval = Number_def trim_def isWhiteSpace_def non_decimal_def signed_decimal_def
  unsigned_decimal_def split_at_def mantissa_def digits1_def digits_def digit_of_def
  to_number_def round_binary64_def floor_log2_def bitlen.simps pow2_def round_half_even_def
  Let_def

lemma Number_0: "Number ''0'' = Finite 0"
  by (simp add: number_eval)

lemma Number_1000: "Number ''1000'' = Finite 1000"
  by (simp add: number_eval)

lemma Number_4: "Number ''4'' = Finite 4"
  by (simp add: number_eval)

lemma divide_1000_4: "divide_number (Finite 1000) (Finite 4) = Finite 250"
  by (simp add: divide_number_def number_eval)

lemma Math_round_250: "Math_round (Finite 250) = Finite 250"
proof -
  have "\<lfloor>(501::rat) / 2\<rfloor> = 250" by (simp add: floor_eq_iff)
  then show ?thesis by (simp add: Math_round_def)
qed

subsection \<open>The timestamp follows the clock\<close>

lemma last_update_step:
  "lastDashboardUpdate (step ev s) = lastDashboardUpdate s \<or> lastDashboardUpdate (step ev s) = now s"
proof (cases ev)
  case (TimerFires i)
  have "lastDashboardUpdate (run_callback cb u) = lastDashboardUpdate u" for cb u
    by (cases cb) (simp_all add: emit_def fetchAllData_def park_def Let_def)
  then show ?thesis using TimerFires
    by (simp add: timer_fires_def clearInterval_def reschedule_def split: option.splits)
next
  case (FetchSettles i r order)
  have "lastDashboardUpdate (fetchAllData_settled silent k out (unpark i s)) = lastDashboardUpdate s
      \<or> lastDashboardUpdate (fetchAllData_settled silent k out (unpark i s)) = now s" for silent k out
  proof (cases out)
    case Pending
    then show ?thesis by (simp add: fetchAllData_settled_def unpark_display)
  qed (simp_all add: settled_Resolved_display settled_Failed_display unpark_display)
  then show ?thesis using FetchSettles
    by (simp split: task.splits settled.splits)
next
  case (PostSettles i res)
  then show ?thesis
    by (cases res)
      (simp_all add: unpark_def setupWebhooksAutomatically_posted_def handleManualRefresh_synced_def
        handleManualRefresh_finally_def handleManualRefresh_catch_def setTimer_def emit_def
        fetchAllData_def park_def Let_def split: task.splits error.splits)
qed (simp_all add: useEffect_body_def useEffect_cleanup_def clearInterval_def setTimer_def
      handleManualRefresh_def fetchAllData_def park_def emit_def Let_def split: option.splits)

lemma last_update_run:
  "lastDashboardUpdate s \<le> now s \<Longrightarrow> lastDashboardUpdate (run evs s) \<le> now (run evs s)"
proof (induction evs arbitrary: s)
  case Nil
  then show ?case by simp
next
  case (Cons ev evs)
  have "lastDashboardUpdate (step ev s) \<le> now (step ev s)"
    using Cons.prems last_update_step [of ev s] by (auto simp: now_step)
  then show ?case using Cons.IH by simp
qed

lemma last_update_reachable:
  "lastDashboardUpdate (run evs (initial t0)) \<le> now (run evs (initial t0))"
  by (rule last_update_run) (simp add: initial_def)

lemma idle_unguarded:
  assumes "session_ok s" "\<not> webhookSetupAttempted s"
  shows "remediations_in_flight s = 0"
  using assms by (simp add: session_ok_def guard_ok_def)

lemma first_rejection_source:
  "first_rejection r order = Some e \<Longrightarrow> \<exists>ep. rejection_of r ep = Some e"
  by (induction order) (auto split: option.splits)

lemma second_cycle_eval:
  "inflight second_cycle = [FetchAll False NoAwaiter, SetupPost]"
  "lastDashboardUpdate second_cycle = 120" "now second_cycle = 120"
  by (simp_all add: second_cycle_def initial_def responses_inactive_def webhooks_inactive_def
      promise_all_def all_settled_def all_endpoints_def op_defs Let_def)

section \<open>The claims\<close>

text \<open>
  C1. A call of \<open>setupWebhooksAutomatically\<close> that finds the guard
  \<open>webhookSetupAttempted\<close> set returns at once: the state is the one before, with one line
  more on the console, so no request is sent and nothing is parked. In every run of the
  session from its first render, under any events, at most one remediation is in flight
  (parked at the request of line 100 or at the refetch of line 102).
\<close>

theorem remediation_guarded:
  "(webhookSetupAttempted s \<longrightarrow>
      setupWebhooksAutomatically s =
        s\<lparr>effects := effects s @ [ConsoleLog ''Skipping auto-webhook setup attempt as one is already in progress or recently failed.'']\<rparr>
      \<and> requests (new_effects s (setupWebhooksAutomatically s)) = [])
   \<and> remediations_in_flight (run evs (initial t0)) \<le> 1"
proof -
  have "guard_ok (run evs (initial t0))"
    using session_ok_run [OF session_ok_initial] by (simp add: session_ok_def)
  then have "remediations_in_flight (run evs (initial t0)) \<le> 1"
    by (simp add: guard_ok_def split: if_splits)
  then show ?thesis
    by (simp add: setup_guarded new_effects_def requests_def)
qed

text \<open>
  The state \<open>remediating\<close> has the guard set and one remediation in flight; a second call
  there sends nothing.
\<close>

theorem remediation_guarded_witness:
  "webhookSetupAttempted remediating
   \<and> inflight (setupWebhooksAutomatically remediating) = [SetupPost]
   \<and> requests (new_effects remediating (setupWebhooksAutomatically remediating)) = []
   \<and> remediations_in_flight remediating = 1"
proof -
  have g: "webhookSetupAttempted remediating" by (simp add: remediating_eval)
  have r: "remediations_in_flight remediating = 1"
    by (simp add: remediations_in_flight_def remediating_eval)
  show ?thesis
    using g r
      remediation_guarded [of remediating "[Mount, FetchSettles 0 responses_inactive all_endpoints]" 0,
        folded remediating_def]
    by (simp add: remediating_eval new_effects_def requests_def)
qed

text \<open>
  C2. Let a remediation be in flight in a state reached from the first render. If its
  request fails, the guard stays set; it is still set after any events during which less
  than 30000 ms pass, and a call of \<open>setupWebhooksAutomatically\<close> then only prints the
  skip line. Once 30000 ms have passed and the timer of line 113 has run, the guard is
  clear and a call sends the registration request. If the request succeeds, the refetch
  of line 102 is parked with the guard still set and no timer is created; when that
  refetch returns, whatever its outcome, the guard is clear, again without a timer.
\<close>

theorem remediation_cooldown:
  assumes "s = run evs0 (initial t0)" "i < length (inflight s)" "inflight s ! i = SetupPost"
    and "elapsed evs < 30000" "30000 \<le> elapsed evs + dt"
    and "j < length (inflight v)" "inflight v ! j = FetchAll silent SetupAwaits"
    and "promise_all r order \<noteq> Pending"
  shows "(let failed = step (PostSettles i (Rejected err)) s;
              early = run evs failed;
              late = run (evs @ [Elapse dt, TimerFires (nextTimerId s)]) failed
          in webhookSetupAttempted failed
             \<and> webhookSetupAttempted early
             \<and> setupWebhooksAutomatically early =
                 emit (ConsoleLog ''Skipping auto-webhook setup attempt as one is already in progress or recently failed.'') early
             \<and> \<not> webhookSetupAttempted late
             \<and> new_effects late (setupWebhooksAutomatically late) =
                 [ConsoleLog ''Attempting automatic webhook setup...'', HttpPost SetupWebhooks])
       \<and> (let succeeded = step (PostSettles i (Fulfilled ())) s;
               refetched = step (FetchSettles j r order) v
           in webhookSetupAttempted succeeded
              \<and> timers succeeded = timers s
              \<and> inflight succeeded =
                   take i (inflight s) @ drop (Suc i) (inflight s) @ [FetchAll True SetupAwaits]
              \<and> \<not> webhookSetupAttempted refetched
              \<and> timers refetched = timers v)"
proof -
  define failed where "failed = step (PostSettles i (Rejected err)) s"
  define t where "t = \<lparr>tid = nextTimerId s, due = now s + 30000, period = None, action = ResetGuard\<rparr>"
  have inv_s: "session_ok s" using assms(1) by (simp add: session_ok_run session_ok_initial)
  have inv_f: "session_ok failed" unfolding failed_def using inv_s by (rule session_ok_step)
  have t_in: "t \<in> set (timers failed)" and now_f: "now failed = now s"
    using failure_sets_timer [OF assms(2,3)] by (simp_all add: failed_def t_def)
  have t_act: "action t = ResetGuard" "due t = now s + 30000" "tid t = nextTimerId s"
    by (simp_all add: t_def)
  have f1: "webhookSetupAttempted failed" using inv_f t_in t_act(1) by (rule guard_held)
  have early: "session_ok (run evs failed) \<and> t \<in> set (timers (run evs failed))
               \<and> now (run evs failed) = now failed + elapsed evs"
    using inv_f t_in t_act(1) by (rule cooldown_run) (simp add: now_f t_act assms(4))
  then have e1: "webhookSetupAttempted (run evs failed)" using t_act(1) guard_held by blast
  define mid where "mid = step (Elapse dt) (run evs failed)"
  have "session_ok mid" "t \<in> set (timers mid)" "due t \<le> now mid"
    using early assms(5) now_f t_act(2) session_ok_step [of "run evs failed" "Elapse dt"]
    by (simp_all add: mid_def)
  then have "\<not> webhookSetupAttempted (timer_fires (tid t) mid)"
    using t_act(1) reset_fires by blast
  then have l1: "\<not> webhookSetupAttempted (run (evs @ [Elapse dt, TimerFires (nextTimerId s)]) failed)"
    by (simp add: run_append mid_def t_act(3))
  have "remediations_in_flight s \<noteq> 0"
    using rem_unpark [OF assms(2)] assms(3) by simp
  then have flag: "webhookSetupAttempted s"
    using inv_s by (auto simp: session_ok_def guard_ok_def split: if_splits)
  have s1: "webhookSetupAttempted (step (PostSettles i (Fulfilled ())) s)"
    "timers (step (PostSettles i (Fulfilled ())) s) = timers s"
    "inflight (step (PostSettles i (Fulfilled ())) s) =
       take i (inflight s) @ drop (Suc i) (inflight s) @ [FetchAll True SetupAwaits]"
    using assms(2,3) flag
    by (simp_all add: setupWebhooksAutomatically_posted_def unpark_def)
  have "\<not> webhookSetupAttempted (fetchAllData_settled silent SetupAwaits out (unpark j v))"
    if "out \<noteq> Pending" for out
    using that by (cases out) (simp_all add: fetchAllData_settled_def setupWebhooksAutomatically_refetched_def)
  then have r1: "\<not> webhookSetupAttempted (step (FetchSettles j r order) v)"
    using assms(6,7,8) by (cases "promise_all r order") simp_all
  have r2: "timers (step (FetchSettles j r order) v) = timers v"
    by (rule timers_grow_FetchSettles)
  show ?thesis
    using f1 e1 l1 s1 r1 r2
    by (simp add: Let_def failed_def [symmetric] setup_guarded setup_unguarded emit_def
        del: step.simps)
qed

text \<open>
  After a failure with status 500 in \<open>remediating\<close>: at 29999 ms the guard is set, at
  30000 ms with the timer run it is clear; after a success it is clear when the refetch
  returns.
\<close>

theorem remediation_cooldown_witness:
  "elapsed [Elapse 29999] < 30000
   \<and> webhookSetupAttempted
        (run [Elapse 29999] (step (PostSettles 0 (Rejected (AxiosError (Some 500)))) remediating))
   \<and> \<not> webhookSetupAttempted
        (run ([Elapse 29999] @ [Elapse 1, TimerFires 2])
           (step (PostSettles 0 (Rejected (AxiosError (Some 500)))) remediating))
   \<and> \<not> webhookSetupAttempted
        (step (FetchSettles 0 responses_inactive all_endpoints)
           (step (PostSettles 0 (Fulfilled ())) remediating))"
proof -
  have v: "inflight (step (PostSettles 0 (Fulfilled ())) remediating) = [FetchAll True SetupAwaits]"
    by (simp add: remediating_eval setupWebhooksAutomatically_posted_def unpark_def)
  have h0: "remediating = run [Mount, FetchSettles 0 responses_inactive all_endpoints] (initial 0)"
    by (rule remediating_def)
  have h: "0 < length (inflight remediating)" "inflight remediating ! 0 = SetupPost"
    "elapsed [Elapse 29999] < 30000" "30000 \<le> elapsed [Elapse 29999] + 1"
    "0 < length (inflight (step (PostSettles 0 (Fulfilled ())) remediating))"
    "inflight (step (PostSettles 0 (Fulfilled ())) remediating) ! 0 = FetchAll True SetupAwaits"
    "promise_all responses_inactive all_endpoints \<noteq> Pending"
    by (simp_all add: remediating_eval v
        promise_all_def responses_inactive_def all_settled_def all_endpoints_def
        del: step.simps run.simps)
  show ?thesis
    using h(3) remediation_cooldown [OF h0 h, of "AxiosError (Some 500)"]
    by (simp add: Let_def remediating_eval del: step.simps run.simps append.simps)
qed

text \<open>
  C3. A fetch cycle whose five mandatory requests succeed and whose webhook-status
  request fails completes as a success: the five entities hold the fetched values, the
  webhook status is null, the timestamp is the time of completion, and nothing is
  added to the trace but the line of the caller that awaited the cycle: no error is
  logged, \<open>onLogout\<close> is not called, no remediation starts.
\<close>

theorem webhook_status_failure_tolerated:
  assumes "i < length (inflight s)" "inflight s ! i = FetchAll silent k"
    and "userRes r = Fulfilled u" "overviewRes r = Fulfilled ov" "ordersDateRes r = Fulfilled od"
        "topCustomersRes r = Fulfilled tc" "recentOrdersRes r = Fulfilled ro"
    and "webhookRes r = Rejected err" "all_settled order"
  shows "let s' = step (FetchSettles i r order) s
         in userInfo s' = Some u \<and> overview s' = Some ov \<and> ordersByDate s' = od
            \<and> topCustomers s' = tc \<and> recentOrders s' = ro \<and> webhookStatus s' = None
            \<and> lastDashboardUpdate s' = now s
            \<and> new_effects s s' = resume_log k"
  using assms step_FetchSettles_effects [OF assms(1,2), of r order]
  by (simp add: step_FetchSettles promise_all_Resolved settled_Resolved_display unpark_display
      try_log_def del: step.simps)

text \<open>
  The first fetch of a session, with status 401 on the webhook-status request alone.
\<close>

theorem webhook_status_failure_tolerated_witness:
  "webhookStatus (step (FetchSettles 0 responses_webhook_401 all_endpoints) loading_session) = None
   \<and> overview (step (FetchSettles 0 responses_webhook_401 all_endpoints) loading_session) = Some sample_overview
   \<and> new_effects loading_session (step (FetchSettles 0 responses_webhook_401 all_endpoints) loading_session) = []"
proof -
  have h: "0 < length (inflight loading_session)" "inflight loading_session ! 0 = FetchAll False NoAwaiter"
    "userRes responses_webhook_401 = Fulfilled sample_user"
    "overviewRes responses_webhook_401 = Fulfilled sample_overview"
    "ordersDateRes responses_webhook_401 = Fulfilled []"
    "topCustomersRes responses_webhook_401 = Fulfilled []"
    "recentOrdersRes responses_webhook_401 = Fulfilled []"
    "webhookRes responses_webhook_401 = Rejected (AxiosError (Some 401))"
    "all_settled all_endpoints"
    by (simp_all add: loading_session_eval responses_webhook_401_def responses_inactive_def
        all_settled_def all_endpoints_def)
  show ?thesis
    using webhook_status_failure_tolerated [OF h] by (simp add: Let_def del: step.simps)
qed

text \<open>
  C4. A fetch cycle in which a mandatory request fails changes none of the six entities
  and not the timestamp. When the mandatory requests that fail in the cycle all fail
  with a non-authentication error, \<open>onLogout\<close> is not called either.
\<close>

theorem mandatory_failure_keeps_display:
  assumes "i < length (inflight s)" "inflight s ! i = FetchAll silent k"
    and "rejection_of r ep = Some err"
  shows "let s' = step (FetchSettles i r order) s
         in userInfo s' = userInfo s \<and> overview s' = overview s
            \<and> ordersByDate s' = ordersByDate s \<and> topCustomers s' = topCustomers s
            \<and> recentOrders s' = recentOrders s \<and> webhookStatus s' = webhookStatus s
            \<and> lastDashboardUpdate s' = lastDashboardUpdate s
            \<and> ((\<forall>ep' e. rejection_of r ep' = Some e \<longrightarrow> \<not> is_auth e)
                 \<longrightarrow> OnLogout \<notin> set (new_effects s s'))"
proof (cases "promise_all r order")
  case Pending
  then show ?thesis using assms(1,2)
    by (simp add: step_FetchSettles new_effects_def del: step.simps)
next
  case (Resolved d)
  then show ?thesis using promise_all_rejected [OF assms(3)] by simp
next
  case (Failed e)
  then have "first_rejection r order = Some e"
    by (auto simp: promise_all_def split: option.splits if_splits)
  then obtain ep' where fr: "rejection_of r ep' = Some e"
    using first_rejection_source by blast
  have "\<not> is_auth e \<Longrightarrow> OnLogout \<notin> set (catch_log e @ resume_log k)"
    by (cases e; cases k) simp_all
  then have "(\<forall>ep' e. rejection_of r ep' = Some e \<longrightarrow> \<not> is_auth e)
      \<Longrightarrow> OnLogout \<notin> set (catch_log e @ resume_log k)"
    using fr by blast
  then show ?thesis
    using Failed assms(1,2) step_FetchSettles_effects [OF assms(1,2), of r order]
    by (simp add: step_FetchSettles settled_Failed_display unpark_display del: step.simps)
qed

text \<open>
  The first fetch of a session, with status 500 on \<open>/me\<close> and no other failure.
\<close>

theorem mandatory_failure_keeps_display_witness:
  "rejection_of responses_server_error Me = Some (AxiosError (Some 500))
   \<and> list_all (\<lambda>ep. rejection_of responses_server_error ep \<in> {None, Some (AxiosError (Some 500))})
        all_endpoints
   \<and> \<not> is_auth (AxiosError (Some 500))
   \<and> userInfo (step (FetchSettles 0 responses_server_error all_endpoints) loading_session)
       = userInfo loading_session
   \<and> lastDashboardUpdate (step (FetchSettles 0 responses_server_error all_endpoints) loading_session)
       = lastDashboardUpdate loading_session
   \<and> OnLogout \<notin> set (new_effects loading_session
        (step (FetchSettles 0 responses_server_error all_endpoints) loading_session))"
proof -
  have h: "0 < length (inflight loading_session)" "inflight loading_session ! 0 = FetchAll False NoAwaiter"
    "rejection_of responses_server_error Me = Some (AxiosError (Some 500))"
    by (simp_all add: loading_session_eval responses_server_error_def)
  have l: "list_all (\<lambda>ep. rejection_of responses_server_error ep \<in> {None, Some (AxiosError (Some 500))})
        all_endpoints"
    by (simp add: responses_server_error_def responses_inactive_def all_endpoints_def)
  have c: "rejection_of responses_server_error ep' \<in> {None, Some (AxiosError (Some 500))}" for ep'
    by (cases ep') (simp_all add: responses_server_error_def responses_inactive_def)
  have a: "\<forall>ep' e. rejection_of responses_server_error ep' = Some e \<longrightarrow> \<not> is_auth e"
  proof (intro allI impI)
    fix ep' e
    assume "rejection_of responses_server_error ep' = Some e"
    then have "e = AxiosError (Some 500)" using c [of ep'] by simp
    then show "\<not> is_auth e" by (simp add: is_auth_status_def)
  qed
  have n: "\<not> is_auth (AxiosError (Some 500))" by (simp add: is_auth_status_def)
  show ?thesis
    using h(3) l a n mandatory_failure_keeps_display [OF h, of all_endpoints]
    by (simp add: Let_def del: step.simps)
qed

text \<open>
  C5 as stated fails. First, the webhook-status request fails with status 401, all six
  requests have settled, and \<open>onLogout\<close> is not called: the \<open>catch\<close> of line 128 turns
  the failure into a null result. Second, \<open>/overview\<close> fails with status 401 after
  \<open>/me\<close> has failed with status 500, and \<open>onLogout\<close> is not called: \<open>Promise.all\<close>
  has rejected with the 500.
\<close>

theorem auth_failure_counterexample:
  "webhookRes responses_webhook_401 = Rejected (AxiosError (Some 401))
   \<and> all_settled all_endpoints
   \<and> logouts (new_effects loading_session
         (step (FetchSettles 0 responses_webhook_401 all_endpoints) loading_session)) = 0
   \<and> overviewRes responses_mixed = Rejected (AxiosError (Some 401))
   \<and> logouts (new_effects loading_session
         (step (FetchSettles 0 responses_mixed all_endpoints) loading_session)) = 0"
proof -
  have a: "promise_all responses_webhook_401 all_endpoints =
      Resolved \<lparr>userData = sample_user, overviewData = sample_overview, ordersDateData = [],
        topCustomersData = [], recentOrdersData = [], webhookData = None\<rparr>"
    by (simp add: promise_all_def responses_webhook_401_def responses_inactive_def
        all_settled_def all_endpoints_def)
  have b: "promise_all responses_mixed all_endpoints = Failed (AxiosError (Some 500))"
    by (simp add: promise_all_def responses_mixed_def responses_inactive_def all_endpoints_def)
  have c: "logouts (new_effects loading_session
         (step (FetchSettles 0 responses_webhook_401 all_endpoints) loading_session)) = 0"
    using a step_FetchSettles_effects [of 0 loading_session False NoAwaiter responses_webhook_401 all_endpoints]
    by (simp add: loading_session_eval logouts_def try_log_def del: step.simps)
  have d: "logouts (new_effects loading_session
         (step (FetchSettles 0 responses_mixed all_endpoints) loading_session)) = 0"
    using b step_FetchSettles_effects [of 0 loading_session False NoAwaiter responses_mixed all_endpoints]
    by (simp add: loading_session_eval logouts_def is_auth_status_def del: step.simps)
  show ?thesis
    using c d
    by (simp add: responses_webhook_401_def responses_mixed_def all_settled_def all_endpoints_def
        del: step.simps)
qed

text \<open>
  C5, as the code has it. A fetch cycle whose first rejection to arrive among the
  mandatory requests has status 401 or 403 calls \<open>onLogout\<close> exactly once. A cycle whose
  five mandatory requests succeed and whose webhook-status request fails, with whatever
  error, does not call \<open>onLogout\<close> and leaves the webhook status null.
\<close>

theorem auth_failure_logs_out_once:
  assumes "i < length (inflight s)" "inflight s ! i = FetchAll silent k"
  shows "let s' = step (FetchSettles i r order) s
         in (first_rejection r order = Some (AxiosError st) \<and> is_auth_status st
               \<longrightarrow> logouts (new_effects s s') = 1)
            \<and> (userRes r = Fulfilled u \<and> overviewRes r = Fulfilled ov
                \<and> ordersDateRes r = Fulfilled od \<and> topCustomersRes r = Fulfilled tc
                \<and> recentOrdersRes r = Fulfilled ro \<and> webhookRes r = Rejected err
                \<and> all_settled order
               \<longrightarrow> logouts (new_effects s s') = 0 \<and> webhookStatus s' = None)"
proof -
  have a: "logouts (new_effects s (step (FetchSettles i r order) s)) = 1"
    if "first_rejection r order = Some (AxiosError st)" "is_auth_status st"
    using that assms step_FetchSettles_effects [OF assms, of r order]
    by (cases k) (simp_all add: promise_all_Failed logouts_def del: step.simps)
  have b: "logouts (new_effects s (step (FetchSettles i r order) s)) = 0
           \<and> webhookStatus (step (FetchSettles i r order) s) = None"
    if "userRes r = Fulfilled u" "overviewRes r = Fulfilled ov" "ordersDateRes r = Fulfilled od"
       "topCustomersRes r = Fulfilled tc" "recentOrdersRes r = Fulfilled ro"
       "webhookRes r = Rejected err" "all_settled order"
    using that assms step_FetchSettles_effects [OF assms, of r order]
    by (cases k)
       (simp_all add: step_FetchSettles promise_all_Resolved settled_Resolved_display
          try_log_def logouts_def del: step.simps)
  show ?thesis
    unfolding Let_def using a b by blast
qed

text \<open>
  The first fetch of a session: with status 403 on \<open>/overview\<close>, and with status 401
  on the webhook-status request alone.
\<close>

theorem auth_failure_logs_out_once_witness:
  "first_rejection responses_unauthorized all_endpoints = Some (AxiosError (Some 403))
   \<and> is_auth_status (Some 403)
   \<and> logouts (new_effects loading_session
        (step (FetchSettles 0 responses_unauthorized all_endpoints) loading_session)) = 1
   \<and> webhookRes responses_webhook_401 = Rejected (AxiosError (Some 401))
   \<and> logouts (new_effects loading_session
        (step (FetchSettles 0 responses_webhook_401 all_endpoints) loading_session)) = 0
   \<and> webhookStatus (step (FetchSettles 0 responses_webhook_401 all_endpoints) loading_session) = None"
proof -
  have h: "0 < length (inflight loading_session)" "inflight loading_session ! 0 = FetchAll False NoAwaiter"
    by (simp_all add: loading_session_eval)
  have p: "first_rejection responses_unauthorized all_endpoints = Some (AxiosError (Some 403))"
    "is_auth_status (Some 403)"
    by (simp_all add: responses_unauthorized_def responses_inactive_def
        all_endpoints_def is_auth_status_def)
  have q: "userRes responses_webhook_401 = Fulfilled sample_user"
    "overviewRes responses_webhook_401 = Fulfilled sample_overview"
    "ordersDateRes responses_webhook_401 = Fulfilled []"
    "topCustomersRes responses_webhook_401 = Fulfilled []"
    "recentOrdersRes responses_webhook_401 = Fulfilled []"
    "webhookRes responses_webhook_401 = Rejected (AxiosError (Some 401))"
    "all_settled all_endpoints"
    by (simp_all add: responses_webhook_401_def responses_inactive_def
        all_settled_def all_endpoints_def)
  show ?thesis
    using p q
      auth_failure_logs_out_once [OF h, where r = responses_unauthorized
        and order = all_endpoints and st = "Some 403"]
      auth_failure_logs_out_once [OF h, where r = responses_webhook_401
        and order = all_endpoints and u = sample_user and ov = sample_overview and od = "[]"
        and tc = "[]" and ro = "[]" and err = "AxiosError (Some 401)"]
    by (simp add: Let_def del: step.simps)
qed

text \<open>
  C6 as stated fails. The effect runs, is cleaned up and runs again, so that two fetches
  are in flight; both complete 120 ms later. The first sets the timestamp to 120; the
  second, all six requests fulfilled, replaces the entities and leaves the timestamp at
  120: not a later value.
\<close>

theorem timestamp_advances_counterexample:
  "inflight second_cycle ! 0 = FetchAll False NoAwaiter
   \<and> fulfilment (userRes responses_inactive) = Some sample_user
   \<and> fulfilment (overviewRes responses_inactive) = Some sample_overview
   \<and> fulfilment (ordersDateRes responses_inactive) = Some []
   \<and> fulfilment (topCustomersRes responses_inactive) = Some []
   \<and> fulfilment (recentOrdersRes responses_inactive) = Some []
   \<and> fulfilment (webhookRes responses_inactive) = Some webhooks_inactive
   \<and> all_settled all_endpoints
   \<and> lastDashboardUpdate second_cycle = 120
   \<and> lastDashboardUpdate (step (FetchSettles 0 responses_inactive all_endpoints) second_cycle) = 120"
proof -
  have "promise_all responses_inactive all_endpoints =
      Resolved \<lparr>userData = sample_user, overviewData = sample_overview, ordersDateData = [],
        topCustomersData = [], recentOrdersData = [], webhookData = Some webhooks_inactive\<rparr>"
    by (simp add: promise_all_def responses_inactive_def all_settled_def all_endpoints_def)
  then have "lastDashboardUpdate (step (FetchSettles 0 responses_inactive all_endpoints) second_cycle) = 120"
    by (simp add: second_cycle_eval settled_Resolved_display unpark_display)
  then show ?thesis
    by (simp add: second_cycle_eval responses_inactive_def all_settled_def all_endpoints_def
        del: step.simps)
qed

text \<open>
  C6, as the code has it. A fetch cycle whose six requests all succeed replaces the six
  entities by the fetched values and sets the timestamp in the one step that completes
  the cycle. The timestamp becomes the clock reading at completion (\<open>new Date()\<close>); in
  a run from the first render that is never earlier than the value it replaces.
\<close>

theorem all_six_replaced:
  assumes "i < length (inflight s)" "inflight s ! i = FetchAll silent k"
    and "userRes r = Fulfilled u" "overviewRes r = Fulfilled ov" "ordersDateRes r = Fulfilled od"
        "topCustomersRes r = Fulfilled tc" "recentOrdersRes r = Fulfilled ro"
    and "webhookRes r = Fulfilled w" "all_settled order"
  shows "let s' = step (FetchSettles i r order) s
         in userInfo s' = Some u \<and> overview s' = Some ov \<and> ordersByDate s' = od
            \<and> topCustomers s' = tc \<and> recentOrders s' = ro \<and> webhookStatus s' = Some w
            \<and> lastDashboardUpdate s' = now s
            \<and> (s = run evs (initial t0) \<longrightarrow> lastDashboardUpdate s \<le> lastDashboardUpdate s')"
proof -
  have "s = run evs (initial t0) \<Longrightarrow> lastDashboardUpdate s \<le> now s"
    using last_update_reachable [of evs t0] by simp
  then show ?thesis
    using assms
    by (simp add: step_FetchSettles promise_all_Resolved settled_Resolved_display unpark_display
        del: step.simps)
qed

text \<open>
  The first fetch of a session completing 120 ms after the first render.
\<close>

theorem all_six_replaced_witness:
  "step (Elapse 120) loading_session = run [Mount, Elapse 120] (initial 0)
   \<and> webhookStatus (step (FetchSettles 0 responses_inactive all_endpoints) (step (Elapse 120) loading_session))
       = Some webhooks_inactive
   \<and> userInfo (step (FetchSettles 0 responses_inactive all_endpoints) (step (Elapse 120) loading_session))
       = Some sample_user
   \<and> lastDashboardUpdate (step (Elapse 120) loading_session) = 0
   \<and> lastDashboardUpdate (step (FetchSettles 0 responses_inactive all_endpoints) (step (Elapse 120) loading_session))
       = 120"
proof -
  have h: "0 < length (inflight (step (Elapse 120) loading_session))"
    "inflight (step (Elapse 120) loading_session) ! 0 = FetchAll False NoAwaiter"
    "userRes responses_inactive = Fulfilled sample_user"
    "overviewRes responses_inactive = Fulfilled sample_overview"
    "ordersDateRes responses_inactive = Fulfilled []"
    "topCustomersRes responses_inactive = Fulfilled []"
    "recentOrdersRes responses_inactive = Fulfilled []"
    "webhookRes responses_inactive = Fulfilled webhooks_inactive"
    "all_settled all_endpoints"
    by (simp_all add: loading_session_eval responses_inactive_def all_settled_def all_endpoints_def)
  have t: "now (step (Elapse 120) loading_session) = 120"
    "lastDashboardUpdate (step (Elapse 120) loading_session) = 0"
    by (simp_all add: loading_session_eval)
  have r: "step (Elapse 120) loading_session = run [Mount, Elapse 120] (initial 0)"
    by (simp add: loading_session_def)
  show ?thesis
    using t r all_six_replaced [OF h, where evs = "[Mount, Elapse 120]" and ?t0.0 = 0]
    by (simp add: Let_def del: step.simps run.simps)
qed

text \<open>
  C7. \<open>handleManualRefresh\<close> sets \<open>refreshing\<close>, sends \<open>POST /sync\<close> and nothing else,
  and is parked. Only the step in which that request is fulfilled sends the six
  \<open>GET\<close> requests, of a fetch with \<open>silent = false\<close>. If the request is rejected, no
  request follows and \<open>refreshing\<close> is cleared. When the awaited fetch returns,
  resolved or failed, \<open>refreshing\<close> is cleared.
\<close>

theorem manual_refresh_sequencing:
  assumes "i < length (inflight u)" "inflight u ! i = SyncPost"
    and "j < length (inflight v)" "inflight v ! j = FetchAll False RefreshAwaits"
    and "promise_all r order \<noteq> Pending"
  shows "(let started = handleManualRefresh s
          in refreshing started \<and> new_effects s started = [HttpPost Sync]
             \<and> inflight started = inflight s @ [SyncPost])
       \<and> (let synced = step (PostSettles i (Fulfilled ())) u
          in new_effects u synced = map HttpGet all_endpoints
             \<and> inflight synced =
                  take i (inflight u) @ drop (Suc i) (inflight u) @ [FetchAll False RefreshAwaits]
             \<and> loading synced \<and> refreshing synced = refreshing u)
       \<and> (let failed = step (PostSettles i (Rejected err)) u
          in requests (new_effects u failed) = []
             \<and> inflight failed = take i (inflight u) @ drop (Suc i) (inflight u)
             \<and> \<not> refreshing failed)
       \<and> \<not> refreshing (step (FetchSettles j r order) v)"
proof -
  have a: "let started = handleManualRefresh s
          in refreshing started \<and> new_effects s started = [HttpPost Sync]
             \<and> inflight started = inflight s @ [SyncPost]"
    by (simp add: handleManualRefresh_def park_def emit_def new_effects_def)
  have b: "let synced = step (PostSettles i (Fulfilled ())) u
          in new_effects u synced = map HttpGet all_endpoints
             \<and> inflight synced =
                  take i (inflight u) @ drop (Suc i) (inflight u) @ [FetchAll False RefreshAwaits]
             \<and> loading synced \<and> refreshing synced = refreshing u"
    using assms(1,2)
    by (simp add: handleManualRefresh_synced_def fetchAllData_def park_def unpark_def
        new_effects_def Let_def)
  have c: "let failed = step (PostSettles i (Rejected err)) u
          in requests (new_effects u failed) = []
             \<and> inflight failed = take i (inflight u) @ drop (Suc i) (inflight u)
             \<and> \<not> refreshing failed"
    using assms(1,2)
    by (cases err)
       (simp_all add: handleManualRefresh_synced_def handleManualRefresh_catch_def
        handleManualRefresh_finally_def emit_def unpark_def new_effects_def requests_def Let_def)
  have "\<not> refreshing (fetchAllData_settled False RefreshAwaits out w)" if "out \<noteq> Pending" for out w
    using that
    by (cases out)
       (simp_all add: fetchAllData_settled_def handleManualRefresh_fetched_def
         handleManualRefresh_finally_def)
  then have d: "\<not> refreshing (step (FetchSettles j r order) v)"
    using assms(3,4,5) by (simp add: step_FetchSettles del: step.simps)
  show ?thesis using a b c d by blast
qed

text \<open>
  A manual refresh in the initial state, followed through both outcomes of the sync
  request.
\<close>

theorem manual_refresh_sequencing_witness:
  "new_effects (initial 0) refresh_started = [HttpPost Sync]
   \<and> new_effects refresh_started (step (PostSettles 0 (Fulfilled ())) refresh_started)
       = map HttpGet all_endpoints
   \<and> requests (new_effects refresh_started
        (step (PostSettles 0 (Rejected (AxiosError None))) refresh_started)) = []
   \<and> \<not> refreshing (step (PostSettles 0 (Rejected (AxiosError None))) refresh_started)
   \<and> refreshing (step (PostSettles 0 (Fulfilled ())) refresh_started)
   \<and> \<not> refreshing (step (FetchSettles 0 responses_inactive all_endpoints)
         (step (PostSettles 0 (Fulfilled ())) refresh_started))"
proof -
  have e: "inflight refresh_started = [SyncPost]" "refreshing refresh_started"
    by (simp_all add: refresh_started_def handleManualRefresh_def park_def emit_def initial_def)
  have v: "inflight (step (PostSettles 0 (Fulfilled ())) refresh_started) = [FetchAll False RefreshAwaits]"
    by (simp add: e handleManualRefresh_synced_def unpark_def)
  have h: "0 < length (inflight refresh_started)" "inflight refresh_started ! 0 = SyncPost"
    "0 < length (inflight (step (PostSettles 0 (Fulfilled ())) refresh_started))"
    "inflight (step (PostSettles 0 (Fulfilled ())) refresh_started) ! 0 = FetchAll False RefreshAwaits"
    "promise_all responses_inactive all_endpoints \<noteq> Pending"
    by (simp_all add: e v promise_all_def responses_inactive_def all_settled_def all_endpoints_def
        del: step.simps)
  show ?thesis
    using e(2) manual_refresh_sequencing [OF h, of "initial 0" "AxiosError None"]
    by (simp add: Let_def refresh_started_def [symmetric] del: step.simps)
qed

text \<open>
  C8. In every run from the first render: after the cleanup of the effect no polling
  timer is set, and whatever events follow, as long as the effect does not run again,
  the interval's callback never runs, also when time has passed beyond its next due
  time. At any moment at most one polling timer is set, and exactly one right after the
  effect has run, whether or not a cleanup came before.
\<close>

theorem teardown_cancels_polling:
  "(Mount \<notin> set after \<longrightarrow>
      poll_fetches (run (before @ Unmount # after) (initial t0))
        = poll_fetches (run (before @ [Unmount]) (initial t0)))
   \<and> poll_timers (run (before @ [Unmount]) (initial t0)) = []
   \<and> length (poll_timers (run before (initial t0))) \<le> 1
   \<and> length (poll_timers (run (before @ [Mount]) (initial t0))) = 1"
proof -
  have ok: "timers_ok (run before (initial t0))"
    using session_ok_run [OF session_ok_initial] by (simp add: session_ok_def)
  have none: "poll_timers (run (before @ [Unmount]) (initial t0)) = []"
    using cleanup_no_poll [OF ok] by (simp add: run_append)
  have "run (before @ Unmount # after) (initial t0) = run after (run (before @ [Unmount]) (initial t0))"
    by (simp add: run_append)
  then have "Mount \<notin> set after \<Longrightarrow>
      poll_fetches (run (before @ Unmount # after) (initial t0))
        = poll_fetches (run (before @ [Unmount]) (initial t0))"
    using no_poll_run [OF none] by simp
  moreover have "length (poll_timers (run (before @ [Mount]) (initial t0))) = 1"
    using body_one_poll [OF ok] by (simp add: run_append)
  ultimately show ?thesis using none at_most_one_poll [OF ok] by blast
qed

text \<open>
  With the cleanup, 15000 ms and a firing of timer 1 give no poll; without it they give
  one.
\<close>

theorem teardown_cancels_polling_witness:
  "Mount \<notin> set [Elapse 15000, TimerFires 1]
   \<and> poll_fetches (run ([Mount] @ Unmount # [Elapse 15000, TimerFires 1]) (initial 0)) = 0
   \<and> poll_fetches (run [Mount, Elapse 15000, TimerFires 1] (initial 0)) = 1"
proof -
  have a: "Mount \<notin> set [Elapse 15000, TimerFires 1]" by simp
  have b: "poll_fetches (run ([Mount] @ [Unmount]) (initial 0)) = 0"
    by (simp add: poll_fetches_def initial_def op_defs Let_def all_endpoints_def)
  have c: "poll_fetches (run [Mount, Elapse 15000, TimerFires 1] (initial 0)) = 1"
    by (simp add: poll_fetches_def initial_def op_defs Let_def all_endpoints_def)
  show ?thesis
    using a b c teardown_cancels_polling [of "[Elapse 15000, TimerFires 1]" "[Mount]" 0]
    by (simp del: step.simps run.simps append.simps)
qed

text \<open>
  C9. \<open>avgOrderValue\<close> is \<open>0\<close> when the overview is absent, when \<open>Number(total_orders)\<close>
  is not greater than zero, and in particular when \<open>total_orders\<close> is \<open>"0"\<close>; the division
  is not evaluated then. For \<open>total_revenue = "1000"\<close> and \<open>total_orders = "4"\<close> it is
  \<open>250\<close>.
\<close>

theorem avgOrderValue_guarded:
  "avgOrderValue None = Finite 0
   \<and> (\<not> gt_zero (Number (total_orders ov)) \<longrightarrow> avgOrderValue (Some ov) = Finite 0)
   \<and> (total_orders ov = ''0'' \<longrightarrow> avgOrderValue (Some ov) = Finite 0)
   \<and> (total_revenue ov = ''1000'' \<and> total_orders ov = ''4'' \<longrightarrow> avgOrderValue (Some ov) = Finite 250)"
  by (simp add: avgOrderValue_def Number_0 Number_1000 Number_4 divide_1000_4 Math_round_250
      gt_zero_def)

text \<open>
  An overview with no orders, and the overview of the second scenario.
\<close>

theorem avgOrderValue_guarded_witness:
  "total_orders sample_overview_empty = ''0''
   \<and> \<not> gt_zero (Number (total_orders sample_overview_empty))
   \<and> avgOrderValue (Some sample_overview_empty) = Finite 0
   \<and> total_revenue sample_overview = ''1000'' \<and> total_orders sample_overview = ''4''
   \<and> avgOrderValue (Some sample_overview) = Finite 250"
proof -
  have a: "total_orders sample_overview_empty = ''0''"
    by (simp add: sample_overview_empty_def)
  have b: "total_revenue sample_overview = ''1000'' \<and> total_orders sample_overview = ''4''"
    by (simp add: sample_overview_def)
  have c: "\<not> gt_zero (Number (total_orders sample_overview_empty))"
    by (simp add: a Number_0 gt_zero_def)
  show ?thesis
    using a b c avgOrderValue_guarded [of sample_overview_empty]
      avgOrderValue_guarded [of sample_overview]
    by blast
qed

text \<open>
  C10. The step that completes a fetch cycle sends the webhook-registration request
  exactly when the cycle resolved, the webhook-status request succeeded with
  \<open>webhooks_active = false\<close>, and the guard was not set. A cycle that leaves the webhook
  status null sends none. In a run from the first render no remediation is in flight
  when the request is sent.
\<close>

theorem remediation_trigger:
  assumes "i < length (inflight s)" "inflight s ! i = FetchAll silent k"
  shows "let s' = step (FetchSettles i r order) s
         in (HttpPost SetupWebhooks \<in> set (new_effects s s'))
              = ((\<exists>d w. promise_all r order = Resolved d \<and> webhookRes r = Fulfilled w
                        \<and> \<not> webhooks_active w)
                 \<and> \<not> webhookSetupAttempted s)
            \<and> (webhookStatus s' = None \<and> promise_all r order \<noteq> Pending
                 \<longrightarrow> HttpPost SetupWebhooks \<notin> set (new_effects s s'))
            \<and> (s = run evs (initial t0) \<and> HttpPost SetupWebhooks \<in> set (new_effects s s')
                 \<longrightarrow> remediations_in_flight s = 0)"
proof -
  define s' where "s' = step (FetchSettles i r order) s"
  have main: "(HttpPost SetupWebhooks \<in> set (new_effects s s'))
              = ((\<exists>d w. promise_all r order = Resolved d \<and> webhookRes r = Fulfilled w
                        \<and> \<not> webhooks_active w)
                 \<and> \<not> webhookSetupAttempted s)
            \<and> (webhookStatus s' = None \<and> promise_all r order \<noteq> Pending
                 \<longrightarrow> HttpPost SetupWebhooks \<notin> set (new_effects s s'))"
  proof (cases "promise_all r order")
    case Pending
    then show ?thesis using assms
      by (simp add: s'_def step_FetchSettles new_effects_def del: step.simps)
  next
    case (Resolved d)
    have "HttpPost SetupWebhooks \<notin> set (resume_log k)" by (cases k) simp_all
    then show ?thesis
      using Resolved assms promise_all_webhookData [OF Resolved]
        step_FetchSettles_effects [OF assms, of r order]
      by (cases "webhookRes r")
         (auto simp: s'_def step_FetchSettles settled_Resolved_display try_log_def
            simp del: step.simps)
  next
    case (Failed e)
    have "HttpPost SetupWebhooks \<notin> set (catch_log e @ resume_log k)" by (cases k; cases e) simp_all
    then show ?thesis
      using Failed assms step_FetchSettles_effects [OF assms, of r order]
      by (simp add: s'_def del: step.simps)
  qed
  have idle: "remediations_in_flight s = 0"
    if "s = run evs (initial t0)" "HttpPost SetupWebhooks \<in> set (new_effects s s')"
  proof -
    have "session_ok s" using that(1) session_ok_run [OF session_ok_initial] by simp
    moreover have "\<not> webhookSetupAttempted s" using main that(2) by blast
    ultimately show ?thesis by (rule idle_unguarded)
  qed
  have c: "s = run evs (initial t0) \<and> HttpPost SetupWebhooks \<in> set (new_effects s s')
      \<longrightarrow> remediations_in_flight s = 0"
    using idle by (intro impI) (elim conjE)
  from main have a: "(HttpPost SetupWebhooks \<in> set (new_effects s s'))
              = ((\<exists>d w. promise_all r order = Resolved d \<and> webhookRes r = Fulfilled w
                        \<and> \<not> webhooks_active w)
                 \<and> \<not> webhookSetupAttempted s)"
    and b: "webhookStatus s' = None \<and> promise_all r order \<noteq> Pending
                 \<longrightarrow> HttpPost SetupWebhooks \<notin> set (new_effects s s')"
    by (rule conjunct1, rule conjunct2)
  show ?thesis
    unfolding Let_def s'_def [symmetric] using a b c by (intro conjI)
qed

text \<open>
  The first fetch of a session: an inactive status triggers the request, a failed
  webhook-status request gives a null status and triggers none.
\<close>

theorem remediation_trigger_witness:
  "loading_session = run [Mount] (initial 0)
   \<and> HttpPost SetupWebhooks \<in> set (new_effects loading_session
        (step (FetchSettles 0 responses_inactive all_endpoints) loading_session))
   \<and> remediations_in_flight loading_session = 0
   \<and> webhookStatus (step (FetchSettles 0 responses_webhook_401 all_endpoints) loading_session) = None
   \<and> HttpPost SetupWebhooks \<notin> set (new_effects loading_session
        (step (FetchSettles 0 responses_webhook_401 all_endpoints) loading_session))"
proof -
  have h: "0 < length (inflight loading_session)" "inflight loading_session ! 0 = FetchAll False NoAwaiter"
    by (simp_all add: loading_session_eval)
  have p: "promise_all responses_inactive all_endpoints =
      Resolved \<lparr>userData = sample_user, overviewData = sample_overview, ordersDateData = [],
        topCustomersData = [], recentOrdersData = [], webhookData = Some webhooks_inactive\<rparr>"
    "promise_all responses_webhook_401 all_endpoints \<noteq> Pending"
    "webhookRes responses_inactive = Fulfilled webhooks_inactive"
    "\<not> webhooks_active webhooks_inactive"
    by (simp_all add: promise_all_def responses_webhook_401_def responses_inactive_def
        all_settled_def all_endpoints_def webhooks_inactive_def)
  have n: "webhookStatus (step (FetchSettles 0 responses_webhook_401 all_endpoints) loading_session) = None"
    by (simp add: loading_session_eval promise_all_def responses_webhook_401_def
        responses_inactive_def all_settled_def all_endpoints_def settled_Resolved_display)
  have r: "loading_session = run [Mount] (initial 0)"
    by (simp add: loading_session_def)
  show ?thesis
    using p n r
      remediation_trigger [OF h, of responses_inactive all_endpoints "[Mount]" 0]
      remediation_trigger [OF h, of responses_webhook_401 all_endpoints "[Mount]" 0]
    by (simp add: Let_def loading_session_eval responses_webhook_401_def
        del: step.simps run.simps)
qed

end
